theory Spec2Isabelle
  imports Complex_Main "HOL-Library.Monad_Syntax"
begin

section \<open>Haplotype-constrained alignment engine of vg (gbwt_extender.cpp)\<close>

text \<open>
  A shallow embedding of \<^verbatim>\<open>src/gbwt_extender.cpp\<close>: the gapless seed extender
  (\<^verbatim>\<open>GaplessExtender\<close>) and the graph wavefront aligner (\<^verbatim>\<open>WFAExtender\<close>).

  Conventions. Offsets and lengths (\<^verbatim>\<open>size_t\<close>, \<^verbatim>\<open>uint32_t\<close>) are \<open>nat\<close>; where the
  source narrows a value (\<^verbatim>\<open>static_cast\<close>, an assignment to a narrower field) the
  wrap-around is written out with \<open>s32\<close> and \<open>u32\<close>. Scores (\<^verbatim>\<open>int32_t\<close>) are \<open>int\<close>.
  An out-of-range read of the source (undefined behaviour in C++) is the value \<open>None\<close>
  of the model. Loops that have no structural bound take fuel; running out of fuel is
  \<open>None\<close> as well.
\<close>

subsection \<open>Fixed-width conversions\<close>

definition s32 :: "int \<Rightarrow> int" where
  \<comment> \<open>\<^verbatim>\<open>static_cast<int32_t>\<close>: the value modulo \<open>2^32\<close>, read as two's complement.\<close>
  "s32 x = signed_take_bit 31 x"

definition u32 :: "nat \<Rightarrow> nat" where
  \<comment> \<open>\<^verbatim>\<open>static_cast<uint32_t>\<close>.\<close>
  "u32 x = x mod 2 ^ 32"

definition fits_int32 :: "int \<Rightarrow> bool" where
  "fits_int32 x = (- (2 ^ 31) \<le> x \<and> x < 2 ^ 31)"

definition INT32_MAX :: int where
  "INT32_MAX = 2147483647"

definition UINT32_MAX :: nat where
  "UINT32_MAX = 4294967295"

subsection \<open>External collaborators: scoring model, handles, haplotype search states\<close>

text \<open>
  The scoring model (\<^verbatim>\<open>Aligner\<close>) is declared outside the files at hand; the code reads
  the five integer parameters below from it.
\<close>

record aligner =
  match :: int
  mismatch :: int
  gap_open :: int
  gap_extension :: int
  full_length_bonus :: int

text \<open>
  A \<^verbatim>\<open>handle_t\<close> is a node in one orientation. The GBWT graph stores it as the GBWT node
  identifier \<open>2 * id + is_reverse\<close>; \<^verbatim>\<open>node_to_handle\<close> and \<^verbatim>\<open>handle_to_node\<close> are the
  identity on that number.
\<close>

type_synonym handle = nat

definition node_to_handle :: "nat \<Rightarrow> handle" where
  "node_to_handle n = n"

definition node_encode :: "nat \<Rightarrow> bool \<Rightarrow> nat" where
  "node_encode i r = 2 * i + (if r then 1 else 0)"

definition node_id :: "nat \<Rightarrow> nat" where
  "node_id n = n div 2"

definition node_is_reverse :: "nat \<Rightarrow> bool" where
  "node_is_reverse n = (n mod 2 = 1)"

definition node_reverse :: "nat \<Rightarrow> nat" where
  \<comment> \<open>\<^verbatim>\<open>gbwt::Node::reverse\<close>: flips the orientation bit.\<close>
  "node_reverse n = (if n mod 2 = 0 then n + 1 else n - 1)"

text \<open>A graph position \<^verbatim>\<open>pos_t\<close>: node id, orientation, offset.\<close>

record pos_t =
  id_of :: nat
  is_rev :: bool
  offset_of :: nat

text \<open>
  A GBWT search state is a node and a closed range of haplotype occurrences; it is
  empty when the range is. A bidirectional state holds one for each direction.
\<close>

record search_state =
  node :: nat
  range :: "nat \<times> nat"

definition state_empty :: "search_state \<Rightarrow> bool" where
  "state_empty s = (fst (range s) > snd (range s))"

definition state_size :: "search_state \<Rightarrow> nat" where
  "state_size s = (if state_empty s then 0 else snd (range s) + 1 - fst (range s))"

record bd_state =
  forward :: search_state
  backward :: search_state

definition bd_size :: "bd_state \<Rightarrow> nat" where
  "bd_size b = state_size (forward b)"

text \<open>
  The graph access layer, as the operations the code calls on \<^verbatim>\<open>GBWTGraph\<close> and
  \<^verbatim>\<open>CachedGBWTGraph\<close>. \<open>follow_paths\<close> lists the haplotype-consistent successor states
  the source's callback is invoked on, in that order; \<open>follow_paths_bd\<close> takes the
  direction flag (\<open>True\<close> is backward).
\<close>

record gbwt_graph =
  get_sequence_view :: "handle \<Rightarrow> string"
  get_state :: "handle \<Rightarrow> search_state"
  get_bd_state :: "handle \<Rightarrow> bd_state"
  bd_find :: "handle list \<Rightarrow> bd_state"
  follow_paths :: "search_state \<Rightarrow> search_state list"
  follow_paths_bd :: "bd_state \<Rightarrow> bool \<Rightarrow> bd_state list"

definition get_length :: "gbwt_graph \<Rightarrow> handle \<Rightarrow> nat" where
  "get_length g h = length (get_sequence_view g h)"

definition get_handle :: "nat \<Rightarrow> bool \<Rightarrow> handle" where
  "get_handle i r = node_to_handle (node_encode i r)"

subsection \<open>GaplessExtension\<close>

record gapless_extension =
  path :: "handle list"
  offset :: nat
  state :: bd_state
  read_interval :: "nat \<times> nat"
  mismatch_positions :: "nat list"
  score :: int
  left_full :: bool
  right_full :: bool
  left_maximal :: bool
  right_maximal :: bool
  internal_score :: nat
  old_score :: nat

definition interval_length :: "nat \<times> nat \<Rightarrow> nat" where
  "interval_length interval = snd interval - fst interval"

text \<open>
  The small accessors of \<^verbatim>\<open>GaplessExtension\<close> are declared in the header: the length of
  the read interval, emptiness, being full-length, being an exact match.
\<close>

definition length_ext :: "gapless_extension \<Rightarrow> nat" where
  "length_ext e = snd (read_interval e) - fst (read_interval e)"

definition empty_ext :: "gapless_extension \<Rightarrow> bool" where
  "empty_ext e = (length_ext e = 0)"

definition full :: "gapless_extension \<Rightarrow> bool" where
  "full e = (left_full e \<and> right_full e)"

definition exact :: "gapless_extension \<Rightarrow> bool" where
  "exact e = (mismatch_positions e = [])"

subsection \<open>Scoring a gapless extension\<close>

text \<open>
  \<^verbatim>\<open>set_score\<close>. Each term is computed in an unsigned type and cast to
  \<^verbatim>\<open>int32_t\<close>; the field is an \<^verbatim>\<open>int32_t\<close>. The difference of the interval ends is a
  \<^verbatim>\<open>size_t\<close> difference: modulo \<open>2^64\<close>, which the cast to 32 bits absorbs, so it is
  written as a difference of integers under \<open>s32\<close>.
\<close>

definition set_score :: "gapless_extension \<Rightarrow> aligner \<Rightarrow> gapless_extension" where
  "set_score extension al =
    (let s0 = s32 ((int (snd (read_interval extension)) - int (fst (read_interval extension))) * match al);
         s1 = s32 (s0 - s32 (int (internal_score extension) * (match al + mismatch al)));
         s2 = s32 (s1 + s32 (of_bool (left_full extension) * full_length_bonus al));
         s3 = s32 (s2 + s32 (of_bool (right_full extension) * full_length_bonus al))
     in extension\<lparr>score := s3\<rparr>)"

definition gapless_score :: "gapless_extension \<Rightarrow> aligner \<Rightarrow> int" where
  \<comment> \<open>The specification's formula, over the integers.\<close>
  "gapless_score e al =
     match al * int (interval_length (read_interval e))
     - int (internal_score e) * (match al + mismatch al)
     + full_length_bonus al * (of_bool (left_full e) + of_bool (right_full e))"

subsection \<open>WFAAlignment and the conversion from a gapless extension\<close>

datatype edit = Match | Mismatch | Insertion | Deletion

record wfa_alignment =
  path_a :: "handle list"
  edits :: "(edit \<times> nat) list"
  node_offset :: nat
  seq_offset :: nat
  length_a :: nat
  score_a :: int

definition empty_alignment :: wfa_alignment where
  \<comment> \<open>The default-constructed \<^verbatim>\<open>WFAAlignment()\<close>.\<close>
  "empty_alignment =
     \<lparr>path_a = [], edits = [], node_offset = 0, seq_offset = 0, length_a = 0, score_a = 0\<rparr>"

definition empty_a :: "wfa_alignment \<Rightarrow> bool" where
  "empty_a a = (path_a a = [])"

definition edit_length_sum :: "(edit \<times> nat) list \<Rightarrow> nat" where
  "edit_length_sum es = sum_list (map snd es)"

text \<open>
  \<^verbatim>\<open>WFAAlignment::WFAAlignment(const GaplessExtension&)\<close>. The loop body, on the pair of
  the edits so far and the cursor \<^verbatim>\<open>edits_made_up_to\<close>; the cursor is set to the
  mismatch position itself, as the source does.
\<close>

definition mismatch_edit_step :: "(edit \<times> nat) list \<times> nat \<Rightarrow> nat \<Rightarrow> (edit \<times> nat) list \<times> nat" where
  "mismatch_edit_step st mismatch_at =
     (let es = fst st; edits_made_up_to = snd st;
          es' = (if es \<noteq> [] \<and> edits_made_up_to = mismatch_at \<and> fst (last es) = Mismatch
                 then butlast es @ [(Mismatch, u32 (snd (last es) + 1))]
                 else (if edits_made_up_to < mismatch_at
                       then es @ [(Match, u32 (mismatch_at - edits_made_up_to))]
                       else es) @ [(Mismatch, 1)])
      in (es', mismatch_at))"

definition alignment_of_extension :: "gapless_extension \<Rightarrow> wfa_alignment" where
  "alignment_of_extension extension =
     (let seq_off = u32 (fst (read_interval extension));
          len = u32 (length_ext extension);
          st = foldl mismatch_edit_step ([], seq_off) (mismatch_positions extension);
          es = (if snd st < u32 (seq_off + len)
                then fst st @ [(Match, u32 (u32 (seq_off + len) - snd st))]
                else fst st)
      in \<lparr>path_a = path extension, edits = es, node_offset = u32 (offset extension),
          seq_offset = seq_off, length_a = len, score_a = score extension\<rparr>)"

subsection \<open>ReadMasker\<close>

text \<open>
  The masker is a table of 256 characters, \<open>X\<close> everywhere but at the valid characters.
  The table is indexed by \<^verbatim>\<open>static_cast<size_t>(c)\<close> for a plain \<^verbatim>\<open>char\<close>, whose
  signedness is the platform's: where \<^verbatim>\<open>char\<close> is signed, a byte of 128 or more
  converts to an index of at least \<open>2^64 - 128\<close>. The flag \<open>char_signed\<close> carries that
  choice; an index outside the table is \<open>None\<close>.
\<close>

definition char_index :: "bool \<Rightarrow> char \<Rightarrow> nat" where
  "char_index char_signed c =
     (if char_signed \<and> 128 \<le> (of_char c :: nat)
      then 2 ^ 64 - 256 + of_char c else of_char c)"

fun set_valid_chars :: "bool \<Rightarrow> string \<Rightarrow> char list \<Rightarrow> char list option" where
  "set_valid_chars char_signed [] table = Some table"
| "set_valid_chars char_signed (c # cs) table =
     (if char_index char_signed c < length table
      then set_valid_chars char_signed cs (table[char_index char_signed c := c])
      else None)"

definition ReadMasker :: "bool \<Rightarrow> string \<Rightarrow> char list option" where
  "ReadMasker char_signed valid_chars = set_valid_chars char_signed valid_chars (replicate 256 CHR ''X'')"

fun apply_mask :: "bool \<Rightarrow> char list \<Rightarrow> string \<Rightarrow> string option" where
  "apply_mask char_signed table [] = Some []"
| "apply_mask char_signed table (c # cs) =
     (if char_index char_signed c < length table
      then map_option ((#) (table ! char_index char_signed c)) (apply_mask char_signed table cs)
      else None)"

definition mask_read :: "bool \<Rightarrow> string \<Rightarrow> string option" where
  \<comment> \<open>Both extenders hold \<^verbatim>\<open>mask("ACGT")\<close> and call it on their copy of the read.\<close>
  "mask_read char_signed sequence =
     (case ReadMasker char_signed ''ACGT'' of
        None \<Rightarrow> None
      | Some table \<Rightarrow> apply_mask char_signed table sequence)"

definition is_base :: "char \<Rightarrow> bool" where
  "is_base c = (c = CHR ''A'' \<or> c = CHR ''C'' \<or> c = CHR ''G'' \<or> c = CHR ''T'')"

subsection \<open>Helpers of the gapless extender\<close>

definition in_place_subvector :: "'a list \<Rightarrow> nat \<Rightarrow> nat \<Rightarrow> 'a list" where
  "in_place_subvector vec head tail =
     (if head \<ge> tail \<or> tail > length vec then [] else take (tail - head) (drop head vec))"

definition get_path_back :: "handle list \<Rightarrow> handle \<Rightarrow> handle list" where
  "get_path_back first second = first @ [second]"

definition get_path_front :: "handle \<Rightarrow> handle list \<Rightarrow> handle list" where
  "get_path_front first second = first # second"

text \<open>
  A seed is a handle with a read offset and a node offset, read through
  \<^verbatim>\<open>get_handle\<close>, \<^verbatim>\<open>get_read_offset\<close> and \<^verbatim>\<open>get_node_offset\<close> (declared in the header).
\<close>

record seed_type =
  seed_handle :: handle
  get_read_offset :: nat
  get_node_offset :: nat

text \<open>
  \<^verbatim>\<open>GaplessExtension::contains\<close>. The loop state is the pair of the read offset and the
  node offset; the comparison of the two \<^verbatim>\<open>size_t\<close> differences is a comparison of
  the diagonals.
\<close>

fun contains_loop :: "gbwt_graph \<Rightarrow> seed_type \<Rightarrow> handle list \<Rightarrow> nat \<Rightarrow> nat \<Rightarrow> bool" where
  "contains_loop g seed [] read_offset node_off = False"
| "contains_loop g seed (h # hs) read_offset node_off =
     (let len = get_length g h - node_off;
          read_offset' = read_offset + len;
          node_off' = node_off + len
      in if h = seed_handle seed
            \<and> int read_offset' - int (get_read_offset seed) = int node_off' - int (get_node_offset seed)
         then True
         else contains_loop g seed hs read_offset' 0)"

definition contains :: "gapless_extension \<Rightarrow> gbwt_graph \<Rightarrow> seed_type \<Rightarrow> bool" where
  "contains e g seed = contains_loop g seed (path e) (fst (read_interval e)) (offset e)"

text \<open>
  \<^verbatim>\<open>GaplessExtension::overlap\<close>. The two iterators are the remaining paths; reading an
  iterator at the end of its path is \<open>None\<close>. The conjunction of the first test is
  evaluated left to right, so the iterators are only read when the positions agree.
\<close>

function overlap_loop :: "gbwt_graph \<Rightarrow> nat \<Rightarrow> nat \<Rightarrow> nat \<Rightarrow> nat \<Rightarrow> nat \<Rightarrow> nat \<Rightarrow> nat \<Rightarrow> handle list \<Rightarrow> handle list \<Rightarrow> nat option" where
  "overlap_loop g this_end another_end result this_pos another_pos this_offset another_offset this_iter another_iter =
     (if this_pos < this_end \<and> another_pos < another_end then
        (if this_pos = another_pos then
           (case (this_iter, another_iter) of
              (h1 # r1, h2 # r2) \<Rightarrow>
                (if h1 = h2 \<and> this_offset = another_offset then
                   (let len = min (get_length g h1 - this_offset)
                                (min (this_end - this_pos) (another_end - another_pos))
                    in overlap_loop g this_end another_end (result + len) (this_pos + len)
                         (another_pos + len) 0 0 r1 r2)
                 else overlap_loop g this_end another_end result
                        (this_pos + (get_length g h1 - this_offset)) another_pos 0 another_offset
                        r1 another_iter)
            | _ \<Rightarrow> None)
         else if this_pos \<le> another_pos then
           (case this_iter of
              h1 # r1 \<Rightarrow> overlap_loop g this_end another_end result
                        (this_pos + (get_length g h1 - this_offset)) another_pos 0 another_offset
                        r1 another_iter
            | [] \<Rightarrow> None)
         else
           (case another_iter of
              h2 # r2 \<Rightarrow> overlap_loop g this_end another_end result this_pos
                        (another_pos + (get_length g h2 - another_offset)) this_offset 0
                        this_iter r2
            | [] \<Rightarrow> None))
      else Some result)"
  by pat_completeness auto
termination
  by (relation "measure (\<lambda>(g, this_end, another_end, result, this_pos, another_pos, this_offset, another_offset, this_iter, another_iter). length this_iter + length another_iter)") auto

declare overlap_loop.simps [simp del]

definition overlap :: "gapless_extension \<Rightarrow> gbwt_graph \<Rightarrow> gapless_extension \<Rightarrow> nat option" where
  "overlap this g another =
     overlap_loop g (snd (read_interval this)) (snd (read_interval another)) 0
       (fst (read_interval this)) (fst (read_interval another))
       (offset this) (offset another) (path this) (path another)"

subsection \<open>Matching a read against one node\<close>

text \<open>
  The three matchers compare eight characters at a time (\<^verbatim>\<open>memcpy\<close> into two zeroed
  64-bit words) and fall back to a character loop when the words differ.
  \<open>advance_right\<close> and \<open>retreat_left\<close> move the read interval by one character; the
  mismatch counter is a \<^verbatim>\<open>uint32_t\<close>.
\<close>

definition advance_right :: "gapless_extension \<Rightarrow> nat \<Rightarrow> gapless_extension" where
  "advance_right m len = m\<lparr>read_interval := (fst (read_interval m), snd (read_interval m) + len)\<rparr>"

definition count_mismatch :: "gapless_extension \<Rightarrow> gapless_extension" where
  "count_mismatch m = m\<lparr>internal_score := u32 (internal_score m + 1)\<rparr>"

fun initial_chars :: "nat \<Rightarrow> string \<Rightarrow> string \<Rightarrow> gapless_extension \<times> nat \<Rightarrow> gapless_extension \<times> nat" where
  "initial_chars 0 seq target st = st"
| "initial_chars (Suc i) seq target (m, node_off) =
     initial_chars i seq target
       (advance_right
          (if seq ! snd (read_interval m) \<noteq> target ! node_off then count_mismatch m else m) 1,
        node_off + 1)"

function match_initial_loop :: "nat \<Rightarrow> string \<Rightarrow> string \<Rightarrow> gapless_extension \<times> nat \<Rightarrow> gapless_extension \<times> nat" where
  "match_initial_loop left seq target (m, node_off) =
     (if left = 0 then (m, node_off)
      else
        (let len = min left 8 in
         if take len (drop (snd (read_interval m)) seq) = take len (drop node_off target)
         then match_initial_loop (left - len) seq target (advance_right m len, node_off + len)
         else match_initial_loop (left - len) seq target (initial_chars len seq target (m, node_off))))"
  by pat_completeness auto
termination
  by (relation "measure (\<lambda>(left, seq, target, st). left)") auto

declare match_initial_loop.simps [simp del]

definition match_initial :: "gapless_extension \<Rightarrow> string \<Rightarrow> string \<Rightarrow> gapless_extension option" where
  "match_initial m seq target =
     (if snd (read_interval m) \<le> length seq \<and> offset m \<le> length target then
        (let left = min (length seq - snd (read_interval m)) (length target - offset m);
             m' = fst (match_initial_loop left seq target (m, offset m))
         in Some (m'\<lparr>old_score := internal_score m'\<rparr>))
      else None)"

text \<open>
  \<^verbatim>\<open>match_forward\<close>: the character loop returns as soon as the next mismatch would
  reach the limit; the flag says that it did.
\<close>

fun forward_chars :: "nat \<Rightarrow> string \<Rightarrow> string \<Rightarrow> nat \<Rightarrow> gapless_extension \<times> nat \<Rightarrow> bool \<times> gapless_extension \<times> nat" where
  "forward_chars 0 seq target mismatch_limit st = (False, st)"
| "forward_chars (Suc i) seq target mismatch_limit (m, node_off) =
     (if seq ! snd (read_interval m) \<noteq> target ! node_off then
        (if u32 (internal_score m + 1) \<ge> mismatch_limit then (True, m, node_off)
         else forward_chars i seq target mismatch_limit
                (advance_right (count_mismatch m) 1, node_off + 1))
      else forward_chars i seq target mismatch_limit (advance_right m 1, node_off + 1))"

function match_forward_loop :: "nat \<Rightarrow> string \<Rightarrow> string \<Rightarrow> nat \<Rightarrow> gapless_extension \<times> nat \<Rightarrow> gapless_extension \<times> nat" where
  "match_forward_loop left seq target mismatch_limit (m, node_off) =
     (if left = 0 then (m, node_off)
      else
        (let len = min left 8 in
         if take len (drop (snd (read_interval m)) seq) = take len (drop node_off target)
         then match_forward_loop (left - len) seq target mismatch_limit
                (advance_right m len, node_off + len)
         else
           (case forward_chars len seq target mismatch_limit (m, node_off) of
              (True, st) \<Rightarrow> st
            | (False, st) \<Rightarrow> match_forward_loop (left - len) seq target mismatch_limit st)))"
  by pat_completeness auto
termination
  by (relation "measure (\<lambda>(left, seq, target, mismatch_limit, st). left)") auto

declare match_forward_loop.simps [simp del]

definition match_forward :: "gapless_extension \<Rightarrow> string \<Rightarrow> string \<Rightarrow> nat \<Rightarrow> (gapless_extension \<times> nat) option" where
  \<comment> \<open>Returns the updated match and the tail offset.\<close>
  "match_forward m seq target mismatch_limit =
     (if snd (read_interval m) \<le> length seq then
        Some (match_forward_loop (min (length seq - snd (read_interval m)) (length target))
                seq target mismatch_limit (m, 0))
      else None)"

definition retreat_left :: "gapless_extension \<Rightarrow> nat \<Rightarrow> gapless_extension" where
  "retreat_left m len =
     m\<lparr>read_interval := (fst (read_interval m) - len, snd (read_interval m)),
       offset := offset m - len\<rparr>"

fun backward_chars :: "nat \<Rightarrow> string \<Rightarrow> string \<Rightarrow> nat \<Rightarrow> gapless_extension \<Rightarrow> bool \<times> gapless_extension" where
  "backward_chars 0 seq target mismatch_limit m = (False, m)"
| "backward_chars (Suc i) seq target mismatch_limit m =
     (if seq ! (fst (read_interval m) - 1) \<noteq> target ! (offset m - 1) then
        (if u32 (internal_score m + 1) \<ge> mismatch_limit then (True, m)
         else backward_chars i seq target mismatch_limit (retreat_left (count_mismatch m) 1))
      else backward_chars i seq target mismatch_limit (retreat_left m 1))"

function match_backward_loop :: "nat \<Rightarrow> string \<Rightarrow> string \<Rightarrow> nat \<Rightarrow> gapless_extension \<Rightarrow> gapless_extension" where
  "match_backward_loop left seq target mismatch_limit m =
     (if left = 0 then m
      else
        (let len = min left 8 in
         if take len (drop (fst (read_interval m) - len) seq) = take len (drop (offset m - len) target)
         then match_backward_loop (left - len) seq target mismatch_limit (retreat_left m len)
         else
           (case backward_chars len seq target mismatch_limit m of
              (True, m') \<Rightarrow> m'
            | (False, m') \<Rightarrow> match_backward_loop (left - len) seq target mismatch_limit m')))"
  by pat_completeness auto
termination
  by (relation "measure (\<lambda>(left, seq, target, mismatch_limit, m). left)") auto

declare match_backward_loop.simps [simp del]

definition match_backward :: "gapless_extension \<Rightarrow> string \<Rightarrow> string \<Rightarrow> nat \<Rightarrow> gapless_extension option" where
  "match_backward m seq target mismatch_limit =
     (if fst (read_interval m) \<le> length seq \<and> offset m \<le> length target then
        Some (match_backward_loop (min (fst (read_interval m)) (offset m)) seq target mismatch_limit m)
      else None)"

subsection \<open>Sorting\<close>

text \<open>
  \<^verbatim>\<open>std::sort\<close> with a comparator. The standard leaves the order of equivalent elements
  open; the model is the stable insertion sort, one of the orders it allows.
\<close>

fun insert_by :: "('a \<Rightarrow> 'a \<Rightarrow> bool) \<Rightarrow> 'a \<Rightarrow> 'a list \<Rightarrow> 'a list" where
  "insert_by lt x [] = [x]"
| "insert_by lt x (y # ys) = (if lt x y then x # y # ys else y # insert_by lt x ys)"

definition std_sort :: "('a \<Rightarrow> 'a \<Rightarrow> bool) \<Rightarrow> 'a list \<Rightarrow> 'a list" where
  "std_sort lt xs = foldl (\<lambda>acc x. insert_by lt x acc) [] xs"

subsection \<open>Full-length extensions: sorting and removing overlaps\<close>

definition full_length_order :: "gapless_extension \<Rightarrow> gapless_extension \<Rightarrow> bool" where
  \<comment> \<open>The comparator of \<^verbatim>\<open>handle_full_length\<close>.\<close>
  "full_length_order a b =
     (if full a \<and> full b then internal_score a < internal_score b else full a)"

text \<open>
  The inner loop over the extensions kept so far: it stops at the first one that the
  candidate overlaps too much. The threshold is a \<^verbatim>\<open>double\<close>; the comparison
  \<^verbatim>\<open>overlap > overlap_threshold * length\<close> is taken over the reals.
\<close>

fun overlaps_kept :: "gbwt_graph \<Rightarrow> real \<Rightarrow> gapless_extension \<Rightarrow> gapless_extension list \<Rightarrow> bool option" where
  "overlaps_kept g overlap_threshold x [] = Some False"
| "overlaps_kept g overlap_threshold x (prev # kept) =
     (case overlap x g prev of
        None \<Rightarrow> None
      | Some ov \<Rightarrow>
          (if real ov > overlap_threshold * real (length_ext prev) then Some True
           else overlaps_kept g overlap_threshold x kept))"

fun keep_distinct :: "gbwt_graph \<Rightarrow> real \<Rightarrow> gapless_extension list \<Rightarrow> gapless_extension list \<Rightarrow> gapless_extension list option" where
  "keep_distinct g overlap_threshold [] kept = Some kept"
| "keep_distinct g overlap_threshold (x # xs) kept =
     (if \<not> full x then Some kept
      else
        (case overlaps_kept g overlap_threshold x kept of
           None \<Rightarrow> None
         | Some True \<Rightarrow> keep_distinct g overlap_threshold xs kept
         | Some False \<Rightarrow> keep_distinct g overlap_threshold xs (kept @ [x])))"

definition handle_full_length :: "gbwt_graph \<Rightarrow> gapless_extension list \<Rightarrow> real \<Rightarrow> gapless_extension list option" where
  "handle_full_length g result overlap_threshold =
     keep_distinct g overlap_threshold (std_sort full_length_order result) []"

subsection \<open>Removing duplicates\<close>

definition pair_less :: "nat \<times> nat \<Rightarrow> nat \<times> nat \<Rightarrow> bool" where
  \<comment> \<open>\<^verbatim>\<open>operator<\<close> of \<^verbatim>\<open>std::pair\<close>.\<close>
  "pair_less a b = (fst a < fst b \<or> (fst a = fst b \<and> snd a < snd b))"

definition sort_order :: "gapless_extension \<Rightarrow> gapless_extension \<Rightarrow> bool" where
  "sort_order a b =
     (if read_interval a \<noteq> read_interval b then pair_less (read_interval a) (read_interval b)
      else if node (backward (state a)) \<noteq> node (backward (state b))
        then node (backward (state a)) < node (backward (state b))
      else if node (forward (state a)) \<noteq> node (forward (state b))
        then node (forward (state a)) < node (forward (state b))
      else if range (backward (state a)) \<noteq> range (backward (state b))
        then pair_less (range (backward (state a))) (range (backward (state b)))
      else if range (forward (state a)) \<noteq> range (forward (state b))
        then pair_less (range (forward (state a))) (range (forward (state b)))
      else offset a < offset b)"

definition ext_eq :: "gapless_extension \<Rightarrow> gapless_extension \<Rightarrow> bool" where
  \<comment> \<open>Modelled from the spec: \<^verbatim>\<open>operator==\<close> of the header; two extensions are equal iff
      they have the same read interval, search state and offset.\<close>
  "ext_eq a b = (read_interval a = read_interval b \<and> state a = state b \<and> offset a = offset b)"

fun unique_loop :: "gapless_extension list \<Rightarrow> gapless_extension list \<Rightarrow> gapless_extension list" where
  "unique_loop [] kept = kept"
| "unique_loop (x # xs) kept =
     (if empty_ext x then unique_loop xs kept
      else if kept = [] \<or> \<not> ext_eq x (last kept) then unique_loop xs (kept @ [x])
      else unique_loop xs kept)"

definition remove_duplicates :: "gapless_extension list \<Rightarrow> gapless_extension list" where
  "remove_duplicates result = unique_loop (std_sort sort_order result) []"

subsection \<open>Finding the mismatching positions\<close>

definition string_at :: "string \<Rightarrow> nat \<Rightarrow> char option" where
  \<comment> \<open>\<^verbatim>\<open>std::string::operator[]\<close>: the terminator at the length, nothing beyond it.\<close>
  "string_at s i = (if i < length s then Some (s ! i) else if i = length s then Some (CHR 0x00) else None)"

function node_mismatches :: "string \<Rightarrow> string \<Rightarrow> nat \<Rightarrow> nat \<Rightarrow> nat \<Rightarrow> nat list \<Rightarrow> (nat \<times> nat list) option" where
  "node_mismatches seq target read_end node_off read_offset acc =
     (if node_off < length target \<and> read_offset < read_end then
        (case string_at seq read_offset of
           None \<Rightarrow> None
         | Some c \<Rightarrow>
             node_mismatches seq target read_end (node_off + 1) (read_offset + 1)
               (if target ! node_off \<noteq> c then acc @ [read_offset] else acc))
      else Some (read_offset, acc))"
  by pat_completeness auto
termination
  by (relation "measure (\<lambda>(seq, target, read_end, node_off, read_offset, acc). length target - node_off)") auto

declare node_mismatches.simps [simp del]

fun path_mismatches :: "string \<Rightarrow> gbwt_graph \<Rightarrow> nat \<Rightarrow> handle list \<Rightarrow> nat \<Rightarrow> nat \<Rightarrow> nat list \<Rightarrow> nat list option" where
  "path_mismatches seq g read_end [] node_off read_offset acc = Some acc"
| "path_mismatches seq g read_end (h # hs) node_off read_offset acc =
     (case node_mismatches seq (get_sequence_view g h) read_end node_off read_offset acc of
        None \<Rightarrow> None
      | Some (read_offset', acc') \<Rightarrow> path_mismatches seq g read_end hs 0 read_offset' acc')"

definition find_mismatches_ext :: "string \<Rightarrow> gbwt_graph \<Rightarrow> gapless_extension \<Rightarrow> gapless_extension option" where
  "find_mismatches_ext seq g extension =
     (if internal_score extension = 0 then Some extension
      else
        (case path_mismatches seq g (snd (read_interval extension)) (path extension)
                (offset extension) (fst (read_interval extension)) (mismatch_positions extension) of
           None \<Rightarrow> None
         | Some ms \<Rightarrow> Some (extension\<lparr>mismatch_positions := ms\<rparr>)))"

fun find_mismatches :: "string \<Rightarrow> gbwt_graph \<Rightarrow> gapless_extension list \<Rightarrow> gapless_extension list option" where
  "find_mismatches seq g [] = Some []"
| "find_mismatches seq g (e # es) =
     (case find_mismatches_ext seq g e of
        None \<Rightarrow> None
      | Some e' \<Rightarrow> map_option ((#) e') (find_mismatches seq g es))"

subsection \<open>Trimming mismatches\<close>

text \<open>
  \<^verbatim>\<open>trim_mismatches\<close>, first part: the scan over the mismatches. The first argument of
  \<open>trim_scan\<close> is the rest of the mismatch list from the iterator on; the current and
  the best interval travel with their scores. The score is an \<^verbatim>\<open>int32_t\<close>; adding a
  \<^verbatim>\<open>size_t\<close> product to it narrows the sum.
\<close>

type_synonym scored_interval = "(nat \<times> nat) \<times> int"

definition after_mismatch :: "aligner \<Rightarrow> nat \<Rightarrow> scored_interval \<Rightarrow> scored_interval" where
  \<comment> \<open>Continue the interval over the mismatch, or start a new one after it.\<close>
  "after_mismatch al m cur =
     (if snd cur \<ge> mismatch al
      then ((fst (fst cur), snd (fst cur) + 1), snd cur - mismatch al)
      else ((m + 1, m + 1), 0))"

definition following_run :: "aligner \<Rightarrow> gapless_extension \<Rightarrow> nat list \<Rightarrow> scored_interval \<Rightarrow> scored_interval" where
  \<comment> \<open>The run of matches up to the next mismatch, or to the end of the extension.\<close>
  "following_run al extension rest cur =
     (case rest of
        [] \<Rightarrow>
          (let len = snd (read_interval extension) - snd (fst cur);
               sc = s32 (snd cur + int len * match al)
           in ((fst (fst cur), snd (read_interval extension)),
               if right_full extension then sc + full_length_bonus al else sc))
      | m' # _ \<Rightarrow>
          ((fst (fst cur), m'), s32 (snd cur + int (m' - snd (fst cur)) * match al)))"

definition better_interval :: "scored_interval \<Rightarrow> scored_interval \<Rightarrow> bool" where
  "better_interval cur best =
     (snd cur > snd best
      \<or> (snd cur > 0 \<and> snd cur = snd best \<and> interval_length (fst cur) > interval_length (fst best)))"

fun trim_scan :: "aligner \<Rightarrow> gapless_extension \<Rightarrow> nat list \<Rightarrow> scored_interval \<Rightarrow> scored_interval \<Rightarrow> scored_interval" where
  "trim_scan al extension [] cur best = best"
| "trim_scan al extension (m # rest) cur best =
     (let cur' = following_run al extension rest (after_mismatch al m cur)
      in trim_scan al extension rest cur' (if better_interval cur' best then cur' else best))"

definition initial_run :: "aligner \<Rightarrow> gapless_extension \<Rightarrow> scored_interval" where
  "initial_run al extension =
     (let current_interval = (fst (read_interval extension), hd (mismatch_positions extension));
          sc = s32 (int (interval_length current_interval) * match al)
      in (current_interval, if left_full extension then sc + full_length_bonus al else sc))"

definition best_trim :: "aligner \<Rightarrow> gapless_extension \<Rightarrow> scored_interval" where
  "best_trim al extension =
     trim_scan al extension (mismatch_positions extension)
       (initial_run al extension) (initial_run al extension)"

text \<open>
  Second part: cutting the path. \<open>trim_head\<close> is the first loop: it returns the index
  \<^verbatim>\<open>head\<close>, the read offset reached, and the new offset when the loop left through
  \<^verbatim>\<open>break\<close>. \<open>trim_tail\<close> is the second loop; it reads \<^verbatim>\<open>path[tail]\<close> without a bound
  check, so running off the path is \<open>None\<close>.
\<close>

fun trim_head :: "gbwt_graph \<Rightarrow> nat \<Rightarrow> handle list \<Rightarrow> nat \<Rightarrow> nat \<Rightarrow> nat \<Rightarrow> nat \<times> nat \<times> nat option" where
  "trim_head g new_first [] head node_off read_offset = (head, read_offset, None)"
| "trim_head g new_first (h # hs) head node_off read_offset =
     (let node_length = get_length g h;
          read_offset' = read_offset + (node_length - node_off)
      in if read_offset' > new_first
         then (head, read_offset', Some (node_length - (read_offset' - new_first)))
         else trim_head g new_first hs (head + 1) 0 read_offset')"

function trim_tail :: "gbwt_graph \<Rightarrow> nat \<Rightarrow> handle list \<Rightarrow> nat \<Rightarrow> nat \<Rightarrow> nat option" where
  "trim_tail g new_second p tail read_offset =
     (if read_offset < new_second then
        (if tail < length p
         then trim_tail g new_second p (tail + 1) (read_offset + get_length g (p ! tail))
         else None)
      else Some tail)"
  by pat_completeness auto
termination
  by (relation "measure (\<lambda>(g, new_second, p, tail, read_offset). length p - tail)") auto

declare trim_tail.simps [simp del]

definition count_below :: "nat list \<Rightarrow> nat \<Rightarrow> nat \<Rightarrow> nat" where
  \<comment> \<open>The index loops over the mismatch vector: advance from \<open>i\<close> while the entry is below the bound.\<close>
  "count_below ms i bound = i + length (takeWhile (\<lambda>m. m < bound) (drop i ms))"

definition trim_mismatches :: "gapless_extension \<Rightarrow> gbwt_graph \<Rightarrow> aligner \<Rightarrow> (bool \<times> gapless_extension) option" where
  "trim_mismatches extension g al =
     (if exact extension then Some (False, extension)
      else
        (let best = best_trim al extension;
             best_interval = fst best;
             best_score = snd best
         in if best_interval = read_interval extension then Some (False, extension)
            else if interval_length best_interval = 0 then
              Some (True, extension\<lparr>path := [], read_interval := best_interval,
                      mismatch_positions := [], score := 0, left_full := False, right_full := False\<rparr>)
            else
              (let e1 = extension\<lparr>
                     left_full := (if fst best_interval > fst (read_interval extension) then False
                                   else left_full extension),
                     right_full := (if snd best_interval < snd (read_interval extension) then False
                                    else right_full extension),
                     read_interval := best_interval,
                     score := best_score\<rparr>;
                   (head, read_offset, new_offset) =
                     trim_head g (fst best_interval) (path extension) 0 (offset extension)
                       (fst (read_interval extension));
                   e2 = (case new_offset of None \<Rightarrow> e1 | Some off \<Rightarrow> e1\<lparr>offset := off\<rparr>)
               in case trim_tail g (snd best_interval) (path extension) (head + 1) read_offset of
                    None \<Rightarrow> None
                  | Some tail \<Rightarrow>
                      (let e3 = (if head > 0 \<or> tail < length (path extension)
                                 then (let p = in_place_subvector (path extension) head tail
                                       in e2\<lparr>path := p, state := bd_find g p\<rparr>)
                                 else e2);
                           mhead = count_below (mismatch_positions extension) 0 (fst best_interval);
                           mtail = count_below (mismatch_positions extension) mhead (snd best_interval)
                       in Some (True, e3\<lparr>mismatch_positions :=
                                   in_place_subvector (mismatch_positions extension) mhead mtail\<rparr>)))))"

subsection \<open>The data of the wavefront aligner\<close>

text \<open>
  \<^verbatim>\<open>MatchPos\<close> is a position in an alignment of the read with the graph: two offsets and
  a stack of tree offsets, the top first. \<^verbatim>\<open>WFAPoint\<close> is a point in the score matrix of
  one node. \<^verbatim>\<open>WFANode\<close> is a node of the tree of search states, with its three wavefronts
  (the constants \<^verbatim>\<open>MATCHES\<close>, \<^verbatim>\<open>INSERTIONS\<close>, \<^verbatim>\<open>DELETIONS\<close> index them). \<^verbatim>\<open>WFATree\<close> is
  the tree; the graph and the read it refers to are arguments of its functions here.
\<close>

record match_pos =
  seq_offset_m :: nat
  node_offset_m :: nat
  path_m :: "nat list"

record wfa_point =
  score_p :: int
  diagonal_p :: int
  seq_offset_p :: nat
  node_offset_p :: nat

datatype wavefront = MATCHES | INSERTIONS | DELETIONS

record wfa_node =
  state_n :: search_state
  parent :: nat
  children :: "nat list"
  dead_end :: bool
  wavefronts :: "wavefront \<Rightarrow> wfa_point list"

record wfa_tree =
  nodes :: "wfa_node list"
  candidate_point :: wfa_point
  candidate_node :: nat
  mismatch_w :: int
  gap_open_w :: int
  gap_extend :: int
  score_bound :: int
  diagonals :: "(int \<times> int) list"
  max_diagonals :: "int \<times> int"

subsection \<open>GaplessExtender::extend\<close>

text \<open>
  Both extenders hold an optional graph, an optional scoring model and the read masker
  for \<^verbatim>\<open>"ACGT"\<close>; \<open>char_signed\<close> is the platform's choice the masker depends on.
\<close>

record extender =
  graph :: "gbwt_graph option"
  aligner :: "aligner option"
  char_signed :: bool

definition mismatch_limit :: "nat \<Rightarrow> nat \<Rightarrow> nat" where
  \<comment> \<open>The bound on the mismatch count while extending a flank; both operands are cast to
      \<^verbatim>\<open>uint32_t\<close>.\<close>
  "mismatch_limit max_mismatches old =
     max (u32 (max_mismatches + 1)) (u32 (max_mismatches div 2 + old + 1))"

definition child_of :: "gapless_extension \<Rightarrow> nat \<Rightarrow> bd_state \<Rightarrow> gapless_extension" where
  \<comment> \<open>The extension \<^verbatim>\<open>next\<close> as both callbacks initialise it, with the given offset.\<close>
  "child_of current off next_state =
     \<lparr>path = [], offset = off, state = next_state, read_interval = read_interval current,
      mismatch_positions = [], score = score current, left_full = left_full current,
      right_full = right_full current, left_maximal = left_maximal current,
      right_maximal = right_maximal current, internal_score = internal_score current,
      old_score = old_score current\<rparr>"

text \<open>
  The callback of the right extension, for one successor state. \<open>Some None\<close>: nothing
  matched, no child.
\<close>

definition extend_right :: "gbwt_graph \<Rightarrow> aligner \<Rightarrow> string \<Rightarrow> nat \<Rightarrow> gapless_extension \<Rightarrow> bd_state \<Rightarrow> gapless_extension option option" where
  "extend_right g al sequence max_mismatches current next_state =
     (let handle = node_to_handle (node (forward next_state));
          limit = mismatch_limit max_mismatches (old_score current)
      in case match_forward (child_of current (offset current) next_state) sequence
                (get_sequence_view g handle) limit of
           None \<Rightarrow> None
         | Some (next1, node_off) \<Rightarrow>
             (if node_off = 0 then Some None
              else
                (let next2 = next1\<lparr>path := get_path_back (path current) handle\<rparr>;
                     next3 =
                       (if snd (read_interval next2) \<ge> length sequence
                        then next2\<lparr>right_full := True, right_maximal := True,
                                   old_score := internal_score next2\<rparr>
                        else if node_off < get_length g handle
                        then next2\<lparr>right_maximal := True, old_score := internal_score next2\<rparr>
                        else next2)
                 in Some (Some (set_score next3 al)))))"

definition extend_left :: "gbwt_graph \<Rightarrow> aligner \<Rightarrow> string \<Rightarrow> nat \<Rightarrow> gapless_extension \<Rightarrow> bd_state \<Rightarrow> gapless_extension option option" where
  "extend_left g al sequence max_mismatches current next_state =
     (let handle = node_to_handle (node_reverse (node (backward next_state)));
          node_length = get_length g handle;
          limit = mismatch_limit max_mismatches (old_score current)
      in case match_backward (child_of current node_length next_state) sequence
                (get_sequence_view g handle) limit of
           None \<Rightarrow> None
         | Some next1 \<Rightarrow>
             (if offset next1 \<ge> node_length then Some None
              else
                (let next2 = next1\<lparr>path := get_path_front handle (path current)\<rparr>;
                     next3 =
                       (if fst (read_interval next2) = 0
                        then next2\<lparr>left_full := True, left_maximal := True\<rparr>
                        else if offset next2 > 0
                        then next2\<lparr>left_maximal := True\<rparr>
                        else next2)
                 in Some (Some (set_score next3 al)))))"

text \<open>
  The priority queue orders extensions by \<^verbatim>\<open>operator<\<close>.
\<close>

definition ext_less :: "gapless_extension \<Rightarrow> gapless_extension \<Rightarrow> bool" where
  \<comment> \<open>Modelled from the spec: \<^verbatim>\<open>operator<\<close> of the header; the queue is a max-priority
      queue ordered by alignment score.\<close>
  "ext_less a b = (score a < score b)"

fun queue_top :: "gapless_extension \<Rightarrow> gapless_extension list \<Rightarrow> gapless_extension" where
  "queue_top x [] = x"
| "queue_top x (y # ys) = (let t = queue_top y ys in if ext_less x t then t else x)"

fun right_children :: "gbwt_graph \<Rightarrow> aligner \<Rightarrow> string \<Rightarrow> nat \<Rightarrow> gapless_extension \<Rightarrow> bd_state list \<Rightarrow> nat \<times> gapless_extension list \<Rightarrow> (nat \<times> gapless_extension list) option" where
  "right_children g al sequence max_mismatches current [] acc = Some acc"
| "right_children g al sequence max_mismatches current (s # ss) (num_extensions, extensions) =
     (case extend_right g al sequence max_mismatches current s of
        None \<Rightarrow> None
      | Some None \<Rightarrow> right_children g al sequence max_mismatches current ss (num_extensions, extensions)
      | Some (Some nx) \<Rightarrow>
          right_children g al sequence max_mismatches current ss
            (num_extensions + bd_size (state nx), extensions @ [nx]))"

fun left_children :: "gbwt_graph \<Rightarrow> aligner \<Rightarrow> string \<Rightarrow> nat \<Rightarrow> gapless_extension \<Rightarrow> bd_state list \<Rightarrow> bool \<times> gapless_extension list \<Rightarrow> (bool \<times> gapless_extension list) option" where
  "left_children g al sequence max_mismatches current [] acc = Some acc"
| "left_children g al sequence max_mismatches current (s # ss) (found_extension, extensions) =
     (case extend_left g al sequence max_mismatches current s of
        None \<Rightarrow> None
      | Some None \<Rightarrow> left_children g al sequence max_mismatches current ss (found_extension, extensions)
      | Some (Some nx) \<Rightarrow>
          left_children g al sequence max_mismatches current ss (True, extensions @ [nx]))"

text \<open>
  The loop over the queue for one seed. It has no bound in the source; the model takes
  fuel, one unit for each extension popped.
\<close>

fun extend_queue :: "nat \<Rightarrow> gbwt_graph \<Rightarrow> aligner \<Rightarrow> string \<Rightarrow> nat \<Rightarrow> gapless_extension list \<Rightarrow> gapless_extension \<Rightarrow> gapless_extension option" where
  "extend_queue fuel g al sequence max_mismatches [] best_match = Some best_match"
| "extend_queue 0 g al sequence max_mismatches (x # xs) best_match = None"
| "extend_queue (Suc fuel) g al sequence max_mismatches (x # xs) best_match =
     (let current = queue_top x xs;
          extensions = remove1 current (x # xs)
      in if \<not> right_maximal current then
           (case right_children g al sequence max_mismatches current
                   (follow_paths_bd g (state current) False) (0, extensions) of
              None \<Rightarrow> None
            | Some (num_extensions, extensions') \<Rightarrow>
                extend_queue fuel g al sequence max_mismatches
                  (if num_extensions < bd_size (state current)
                   then extensions' @ [current\<lparr>right_maximal := True, old_score := internal_score current\<rparr>]
                   else extensions')
                  best_match)
         else if \<not> left_maximal current then
           (case left_children g al sequence max_mismatches current
                   (follow_paths_bd g (state current) True) (False, extensions) of
              None \<Rightarrow> None
            | Some (True, extensions') \<Rightarrow>
                extend_queue fuel g al sequence max_mismatches extensions' best_match
            | Some (False, extensions') \<Rightarrow>
                (let current' = current\<lparr>left_maximal := True\<rparr>
                 in extend_queue fuel g al sequence max_mismatches extensions'
                      (if ext_less best_match current' then current' else best_match)))
         else
           extend_queue fuel g al sequence max_mismatches extensions
             (if ext_less best_match current then current else best_match))"

definition default_bd_state :: bd_state where
  \<comment> \<open>\<^verbatim>\<open>gbwt::BidirectionalState()\<close>: two empty states at the endmarker.\<close>
  "default_bd_state = \<lparr>forward = \<lparr>node = 0, range = (1, 0)\<rparr>, backward = \<lparr>node = 0, range = (1, 0)\<rparr>\<rparr>"

definition initial_best_match :: gapless_extension where
  "initial_best_match =
     \<lparr>path = [], offset = 0, state = default_bd_state, read_interval = (0, 0),
      mismatch_positions = [], score = - INT32_MAX - 1, left_full = False, right_full = False,
      left_maximal = False, right_maximal = False, internal_score = UINT32_MAX,
      old_score = UINT32_MAX\<rparr>"

definition seed_match :: "gbwt_graph \<Rightarrow> aligner \<Rightarrow> string \<Rightarrow> seed_type \<Rightarrow> gapless_extension option" where
  \<comment> \<open>The match of the seed's own node that starts the queue.\<close>
  "seed_match g al sequence seed =
     (let m0 = \<lparr>path = [seed_handle seed], offset = get_node_offset seed,
                state = get_bd_state g (seed_handle seed),
                read_interval = (get_read_offset seed, get_read_offset seed),
                mismatch_positions = [], score = 0, left_full = False, right_full = False,
                left_maximal = False, right_maximal = False, internal_score = 0, old_score = 0\<rparr>
      in case match_initial m0 sequence (get_sequence_view g (seed_handle seed)) of
           None \<Rightarrow> None
         | Some m1 \<Rightarrow>
             (let m2 = (if fst (read_interval m1) = 0
                        then m1\<lparr>left_full := True, left_maximal := True\<rparr> else m1);
                  m3 = (if snd (read_interval m2) \<ge> length sequence
                        then m2\<lparr>right_full := True, right_maximal := True\<rparr> else m2)
              in Some (set_score m3 al)))"

definition SIZE_MAX :: nat where
  "SIZE_MAX = 2 ^ 64 - 1"

fun extend_seeds :: "nat \<Rightarrow> gbwt_graph \<Rightarrow> aligner \<Rightarrow> string \<Rightarrow> nat \<Rightarrow> seed_type list \<Rightarrow> gapless_extension list \<times> nat \<Rightarrow> (gapless_extension list \<times> nat) option" where
  "extend_seeds fuel g al sequence max_mismatches [] acc = Some acc"
| "extend_seeds fuel g al sequence max_mismatches (seed # seeds) (result, best_alignment) =
     (if best_alignment < length result \<and> internal_score (result ! best_alignment) = 0
         \<and> contains (result ! best_alignment) g seed
      then extend_seeds fuel g al sequence max_mismatches seeds (result, best_alignment)
      else
        (case seed_match g al sequence seed of
           None \<Rightarrow> None
         | Some m \<Rightarrow>
             (case extend_queue fuel g al sequence max_mismatches [m] initial_best_match of
                None \<Rightarrow> None
              | Some best_match \<Rightarrow>
                  extend_seeds fuel g al sequence max_mismatches seeds
                    (if \<not> empty_ext best_match then
                       (result @ [best_match],
                        if full best_match
                           \<and> (best_alignment \<ge> length result
                              \<or> internal_score best_match < internal_score (result ! best_alignment))
                        then length result else best_alignment)
                     else (result, best_alignment)))))"

fun trim_all :: "gbwt_graph \<Rightarrow> aligner \<Rightarrow> gapless_extension list \<Rightarrow> (bool \<times> gapless_extension list) option" where
  "trim_all g al [] = Some (False, [])"
| "trim_all g al (e # es) =
     (case trim_mismatches e g al of
        None \<Rightarrow> None
      | Some (t, e') \<Rightarrow>
          (case trim_all g al es of
             None \<Rightarrow> None
           | Some (trimmed, es') \<Rightarrow> Some (t \<or> trimmed, e' # es')))"

text \<open>
  The work of \<^verbatim>\<open>extend\<close> after the read has been masked. The cache is a memoising view
  of the graph: the one passed in, or one made of the extender's graph.
\<close>

definition extend_masked :: "nat \<Rightarrow> gbwt_graph \<Rightarrow> aligner \<Rightarrow> seed_type list \<Rightarrow> string \<Rightarrow> nat \<Rightarrow> real \<Rightarrow> gapless_extension list option" where
  "extend_masked fuel cache al cluster sequence max_mismatches overlap_threshold =
     (case extend_seeds fuel cache al sequence max_mismatches cluster ([], SIZE_MAX) of
        None \<Rightarrow> None
      | Some (result, best_alignment) \<Rightarrow>
          (if best_alignment < length result
              \<and> internal_score (result ! best_alignment) \<le> max_mismatches
           then
             (case handle_full_length cache result overlap_threshold of
                None \<Rightarrow> None
              | Some kept \<Rightarrow> find_mismatches sequence cache kept)
           else
             (case find_mismatches sequence cache (remove_duplicates result) of
                None \<Rightarrow> None
              | Some found \<Rightarrow>
                  (case trim_all cache al found of
                     None \<Rightarrow> None
                   | Some (trimmed, result') \<Rightarrow>
                       Some (if trimmed then remove_duplicates result' else result')))))"

definition extend :: "nat \<Rightarrow> extender \<Rightarrow> seed_type list \<Rightarrow> string \<Rightarrow> gbwt_graph option \<Rightarrow> nat \<Rightarrow> real \<Rightarrow> gapless_extension list option" where
  "extend fuel this cluster sequence cache max_mismatches overlap_threshold =
     (case (graph this, aligner this) of
        (Some g, Some al) \<Rightarrow>
          (if cluster = [] \<or> sequence = [] then Some []
           else
             (case mask_read (char_signed this) sequence of
                None \<Rightarrow> None
              | Some masked \<Rightarrow>
                  extend_masked fuel (case cache of None \<Rightarrow> g | Some c \<Rightarrow> c) al cluster masked
                    max_mismatches overlap_threshold))
      | _ \<Rightarrow> Some [])"

subsection \<open>Specification-level notions for the mismatch ceiling\<close>

definition mismatch_ceiling :: "nat \<Rightarrow> nat \<Rightarrow> nat" where
  \<comment> \<open>The ceiling as the specification states it, over the naturals.\<close>
  "mismatch_ceiling budget old = max (budget + 1) (budget div 2 + old + 1)"

definition below_limit :: "nat \<Rightarrow> nat \<Rightarrow> gapless_extension \<Rightarrow> bool" where
  "below_limit start limit m = (internal_score m = start \<or> internal_score m < limit)"


subsection \<open>An example graph\<close>

text \<open>
  The toy graph of the unit tests, \<^verbatim>\<open>GA(T|GGG)TA(C|A)A\<close>: nodes 1 to 9, a forward handle
  \<open>2 * id\<close> and a reverse handle \<open>2 * id + 1\<close> for each. The haplotype index is replaced
  by a successor table that lists, for each forward handle, the handles that some
  haplotype continues with and how many do.
\<close>

definition toy_forward :: "nat \<Rightarrow> string" where
  "toy_forward i =
     (if i = 1 then ''G'' else if i = 2 then ''A'' else if i = 3 then ''T''
      else if i = 4 then ''GGG'' else if i = 5 then ''T'' else if i = 6 then ''A''
      else if i = 7 then ''C'' else if i = 8 then ''A'' else if i = 9 then ''A'' else [])"

definition complement :: "char \<Rightarrow> char" where
  "complement c =
     (if c = CHR ''A'' then CHR ''T'' else if c = CHR ''C'' then CHR ''G''
      else if c = CHR ''G'' then CHR ''C'' else if c = CHR ''T'' then CHR ''A'' else c)"

definition toy_sequence :: "handle \<Rightarrow> string" where
  "toy_sequence h =
     (if node_is_reverse h then rev (map complement (toy_forward (node_id h)))
      else toy_forward (node_id h))"

definition toy_next :: "handle \<Rightarrow> (handle \<times> nat) list" where
  "toy_next h =
     (if h = 2 then [(4, 1), (8, 2)] else if h = 4 then [(8, 1)] else if h = 8 then [(10, 3)]
      else if h = 10 then [(12, 3)] else if h = 12 then [(14, 2), (16, 1)]
      else if h = 14 then [(18, 2)] else if h = 16 then [(18, 1)] else [])"

definition toy_prev :: "handle \<Rightarrow> (handle \<times> nat) list" where
  "toy_prev h =
     (if h = 4 then [(2, 1)] else if h = 8 then [(2, 2), (4, 1)] else if h = 10 then [(8, 3)]
      else if h = 12 then [(10, 3)] else if h = 14 then [(12, 2)] else if h = 16 then [(12, 1)]
      else if h = 18 then [(14, 2), (16, 1)] else [])"

definition toy_state :: "handle \<Rightarrow> nat \<Rightarrow> search_state" where
  "toy_state h count = \<lparr>node = h, range = (if count = 0 then (1, 0) else (0, count - 1))\<rparr>"

definition toy_visits :: "handle \<Rightarrow> nat" where
  "toy_visits h =
     (if h = 2 \<or> h = 8 \<or> h = 10 \<or> h = 12 \<or> h = 18 then 3
      else if h = 14 then 2 else if h = 4 \<or> h = 16 then 1 else 0)"

definition toy_bd_state :: "handle \<Rightarrow> handle \<Rightarrow> nat \<Rightarrow> bd_state" where
  \<comment> \<open>A path from the first handle to the last one, with the number of haplotypes on it.\<close>
  "toy_bd_state first_h last_h count =
     \<lparr>forward = toy_state last_h count, backward = toy_state (node_reverse first_h) count\<rparr>"

definition toy_graph :: gbwt_graph where
  "toy_graph =
     \<lparr>get_sequence_view = toy_sequence,
      get_state = (\<lambda>h. toy_state h (toy_visits h)),
      get_bd_state = (\<lambda>h. toy_bd_state h h (toy_visits h)),
      bd_find = (\<lambda>p. if p = [] then default_bd_state
                      else toy_bd_state (hd p) (last p) (min (toy_visits (hd p)) (toy_visits (last p)))),
      follow_paths = (\<lambda>s. map (\<lambda>(h, c). toy_state h c) (toy_next (node s))),
      follow_paths_bd = (\<lambda>b backward_dir.
         if backward_dir
         then map (\<lambda>(h, c). \<lparr>forward = forward b, backward = toy_state (node_reverse h) c\<rparr>)
                (toy_prev (node_reverse (node (backward b))))
         else map (\<lambda>(h, c). \<lparr>forward = toy_state h c, backward = backward b\<rparr>)
                (toy_next (node (forward b))))\<rparr>"

definition toy_aligner :: aligner where
  "toy_aligner = \<lparr>match = 1, mismatch = 4, gap_open = 6, gap_extension = 1, full_length_bonus = 5\<rparr>"

definition toy_item :: gapless_extension where
  \<comment> \<open>The first two bases of the read \<^verbatim>\<open>TTCCCA\<close> on the nodes 1 and 2, both mismatches,
      not yet right-maximal.\<close>
  "toy_item =
     \<lparr>path = [2, 4], offset = 0, state = toy_bd_state 2 4 1, read_interval = (0, 2),
      mismatch_positions = [], score = -3, left_full = True, right_full = False,
      left_maximal = True, right_maximal = False, internal_score = 2, old_score = 2\<rparr>"

definition toy_item_next :: bd_state where
  \<comment> \<open>The successor state of \<open>toy_item\<close> on node 4.\<close>
  "toy_item_next = \<lparr>forward = toy_state 8 1, backward = toy_state 3 1\<rparr>"

definition toy_left_item :: gapless_extension where
  \<comment> \<open>The last two bases of the read \<^verbatim>\<open>ACCGG\<close> on the nodes 5 and 6, both mismatches,
      right-maximal and not yet left-maximal.\<close>
  "toy_left_item =
     \<lparr>path = [10, 12], offset = 0, state = toy_bd_state 10 12 3, read_interval = (3, 5),
      mismatch_positions = [], score = -3, left_full = False, right_full = True,
      left_maximal = False, right_maximal = True, internal_score = 2, old_score = 2\<rparr>"

definition toy_left_next :: bd_state where
  \<comment> \<open>The predecessor state of \<open>toy_left_item\<close> on node 4.\<close>
  "toy_left_next = \<lparr>forward = toy_state 12 3, backward = toy_state 9 3\<rparr>"

definition toy_extension :: gapless_extension where
  \<comment> \<open>The read \<^verbatim>\<open>GGAGTAC\<close> on the nodes 1, 4, 5, 6, 7, with one mismatch at read offset 2.\<close>
  "toy_extension =
     \<lparr>path = [2, 8, 10, 12, 14], offset = 0, state = toy_bd_state 2 14 2, read_interval = (0, 7),
      mismatch_positions = [2], score = 12, left_full = True, right_full = True,
      left_maximal = True, right_maximal = True, internal_score = 1, old_score = 1\<rparr>"

subsection \<open>Auxiliary notions for the trimming scan\<close>

text \<open>
  The intervals the scan visits, in order, and the choice of the best among a list of
  them: \<open>trim_scan\<close> is \<open>pick_best\<close> over \<open>runs\<close>.
\<close>

fun runs :: "aligner \<Rightarrow> gapless_extension \<Rightarrow> nat list \<Rightarrow> scored_interval \<Rightarrow> scored_interval list" where
  "runs al extension [] cur = []"
| "runs al extension (m # rest) cur =
     (let cur' = following_run al extension rest (after_mismatch al m cur)
      in cur' # runs al extension rest cur')"

fun pick_best :: "scored_interval list \<Rightarrow> scored_interval \<Rightarrow> scored_interval" where
  "pick_best [] best = best"
| "pick_best (c # cs) best = pick_best cs (if better_interval c best then c else best)"

definition cut_right :: "gapless_extension \<Rightarrow> nat list \<Rightarrow> gapless_extension" where
  \<comment> \<open>The extension as the scan sees it when it stops before the mismatches \<open>ys\<close>.\<close>
  "cut_right e ys =
     (if ys = [] then e
      else e\<lparr>read_interval := (fst (read_interval e), hd ys), right_full := False\<rparr>)"

definition fresh_run :: "aligner \<Rightarrow> nat \<Rightarrow> nat \<Rightarrow> scored_interval" where
  \<comment> \<open>The interval of matches from \<open>a\<close> to \<open>h\<close>, started after a mismatch.\<close>
  "fresh_run al a h = ((a, h), s32 (int (h - a) * match al))"

definition wf_mismatches :: "gapless_extension \<Rightarrow> bool" where
  \<comment> \<open>The data model's invariant: the mismatch positions are sorted read offsets within
      the read interval.\<close>
  "wf_mismatches e =
     (sorted_wrt (<) (mismatch_positions e)
      \<and> list_all (\<lambda>m. fst (read_interval e) \<le> m \<and> m < snd (read_interval e)) (mismatch_positions e))"

subsection \<open>The wavefront aligner: positions and points\<close>

text \<open>
  \<^verbatim>\<open>MatchPos\<close>: a position in an alignment of the read with the graph. The path is a
  stack of tree offsets, the top first; \<^verbatim>\<open>node()\<close> on an empty stack is \<open>None\<close>.
\<close>

definition nth_opt :: "'a list \<Rightarrow> nat \<Rightarrow> 'a option" where
  \<comment> \<open>\<^verbatim>\<open>v[i]\<close> on a vector.\<close>
  "nth_opt xs i = (if i < length xs then Some (xs ! i) else None)"

definition size_sub :: "nat \<Rightarrow> nat \<Rightarrow> nat" where
  \<comment> \<open>Subtraction of \<^verbatim>\<open>size_t\<close> values.\<close>
  "size_sub a b = (if b \<le> a then a - b else 2 ^ 64 + a - b)"

definition trunc_div :: "int \<Rightarrow> int \<Rightarrow> int" where
  \<comment> \<open>Integer division of C++, which truncates towards zero.\<close>
  "trunc_div a b = sgn a * sgn b * (\<bar>a\<bar> div \<bar>b\<bar>)"

definition empty_pos :: match_pos where
  \<comment> \<open>\<^verbatim>\<open>MatchPos()\<close>.\<close>
  "empty_pos = \<lparr>seq_offset_m = 0, node_offset_m = 0, path_m = []\<rparr>"

definition pos_empty :: "match_pos \<Rightarrow> bool" where
  "pos_empty pos = (path_m pos = [])"

definition at_last_node :: "match_pos \<Rightarrow> bool" where
  "at_last_node pos = (length (path_m pos) = 1)"

definition pos_node :: "match_pos \<Rightarrow> nat option" where
  "pos_node pos = (case path_m pos of [] \<Rightarrow> None | n # rest \<Rightarrow> Some n)"

definition pos_less :: "match_pos \<Rightarrow> match_pos \<Rightarrow> bool" where
  \<comment> \<open>\<^verbatim>\<open>MatchPos::operator<\<close>.\<close>
  "pos_less this another =
     (if pos_empty this then True
      else if pos_empty another then False
      else seq_offset_m this < seq_offset_m another)"

definition pos_max :: "match_pos \<Rightarrow> match_pos \<Rightarrow> match_pos" where
  \<comment> \<open>\<^verbatim>\<open>MatchPos::max\<close>.\<close>
  "pos_max a b =
     (if pos_empty a then b
      else if pos_empty b then a
      else if seq_offset_m a > seq_offset_m b then a else b)"

text \<open>\<^verbatim>\<open>WFAPoint\<close>: a point in the score matrix of one node.\<close>

definition target_offset :: "wfa_point \<Rightarrow> int" where
  "target_offset p = s32 (int (seq_offset_p p)) - diagonal_p p"

definition alignment_score :: "wfa_point \<Rightarrow> aligner \<Rightarrow> int" where
  "alignment_score p al =
     trunc_div (match al * (s32 (int (seq_offset_p p)) + target_offset p) - score_p p) 2"

definition point_pos :: "wfa_point \<Rightarrow> nat list \<Rightarrow> match_pos" where
  "point_pos p path_to = \<lparr>seq_offset_m = seq_offset_p p, node_offset_m = node_offset_p p, path_m = path_to\<rparr>"

definition point_less :: "wfa_point \<Rightarrow> wfa_point \<Rightarrow> bool" where
  \<comment> \<open>\<^verbatim>\<open>WFAPoint::operator<\<close>: by score, then by diagonal.\<close>
  "point_less this another =
     (score_p this < score_p another
      \<or> (score_p this = score_p another \<and> diagonal_p this < diagonal_p another))"

subsection \<open>The wavefront aligner: nodes of the search tree\<close>

definition WFANode :: "search_state \<Rightarrow> nat \<Rightarrow> wfa_node" where
  "WFANode st par =
     \<lparr>state_n = st, parent = par, children = [], dead_end = False, wavefronts = (\<lambda>type. [])\<rparr>"

definition is_leaf :: "wfa_node \<Rightarrow> bool" where
  "is_leaf nd = (children nd = [] \<or> dead_end nd)"

definition expanded :: "wfa_node \<Rightarrow> bool" where
  "expanded nd = (children nd \<noteq> [] \<or> dead_end nd)"

definition same_node :: "wfa_node \<Rightarrow> pos_t \<Rightarrow> bool" where
  "same_node nd pos =
     (node_id (node (state_n nd)) = id_of pos \<and> node_is_reverse (node (state_n nd)) = is_rev pos)"

definition node_length :: "wfa_node \<Rightarrow> gbwt_graph \<Rightarrow> nat" where
  "node_length nd g = get_length g (node_to_handle (node (state_n nd)))"

text \<open>
  The points of a wavefront are kept sorted by \<open>point_less\<close>; \<^verbatim>\<open>std::lower_bound\<close> splits
  the vector at the first point that is not less than the key.
\<close>

definition node_find_pos :: "wfa_node \<Rightarrow> wavefront \<Rightarrow> int \<Rightarrow> int \<Rightarrow> nat list \<Rightarrow> match_pos" where
  "node_find_pos nd type score_at diagonal path_to =
     (let key = \<lparr>score_p = score_at, diagonal_p = diagonal, seq_offset_p = 0, node_offset_p = 0\<rparr>
      in case dropWhile (\<lambda>p. point_less p key) (wavefronts nd type) of
           [] \<Rightarrow> empty_pos
         | p # rest \<Rightarrow> (if point_less key p then empty_pos else point_pos p path_to))"

definition node_update :: "wfa_node \<Rightarrow> wavefront \<Rightarrow> int \<Rightarrow> int \<Rightarrow> nat \<Rightarrow> nat \<Rightarrow> wfa_node" where
  "node_update nd type score_at diagonal seq_off node_off =
     (let key = \<lparr>score_p = score_at, diagonal_p = diagonal, seq_offset_p = seq_off,
                 node_offset_p = node_off\<rparr>;
          points = wavefronts nd type;
          before = takeWhile (\<lambda>p. point_less p key) points;
          rest = dropWhile (\<lambda>p. point_less p key) points;
          points' = (case rest of
                       [] \<Rightarrow> before @ [key]
                     | p # ps \<Rightarrow> (if point_less key p then before @ key # p # ps
                                 else before @ key # ps))
      in nd\<lparr>wavefronts := (wavefronts nd)(type := points')\<rparr>)"

function node_match_forward :: "string \<Rightarrow> string \<Rightarrow> match_pos \<Rightarrow> match_pos" where
  "node_match_forward sequence node_seq pos =
     (if seq_offset_m pos < length sequence \<and> node_offset_m pos < length node_seq
         \<and> sequence ! seq_offset_m pos = node_seq ! node_offset_m pos
      then node_match_forward sequence node_seq
             (pos\<lparr>seq_offset_m := seq_offset_m pos + 1, node_offset_m := node_offset_m pos + 1\<rparr>)
      else pos)"
  by pat_completeness auto
termination
  by (relation "measure (\<lambda>(sequence, node_seq, pos). length sequence - seq_offset_m pos)") auto

declare node_match_forward.simps [simp del]

subsection \<open>The wavefront aligner: the tree of search states\<close>

text \<open>
  \<^verbatim>\<open>WFATree\<close>. The graph and the read are arguments of the functions below. The
  constructor derives the three penalties from the scoring model and the score bound
  from the length of the read; the three factors of the bound are computed in double
  precision in the source (\<^verbatim>\<open>0.03 * length + 1\<close>, \<^verbatim>\<open>0.05 * length + 1\<close>,
  \<^verbatim>\<open>0.1 * length + 1\<close>, each truncated to \<^verbatim>\<open>int32_t\<close>) and are the argument
  \<open>error_bounds\<close> here, a function of the length.
\<close>

definition WFATree :: "(nat \<Rightarrow> int \<times> int \<times> int) \<Rightarrow> string \<Rightarrow> search_state \<Rightarrow> aligner \<Rightarrow> wfa_tree" where
  "WFATree error_bounds sequence root_state al =
     (let mismatch_penalty = s32 (2 * (match al + mismatch al));
          gap_open_penalty = s32 (2 * gap_open al);
          gap_extend_penalty = s32 (2 * gap_extension al + match al);
          max_mismatches = fst (error_bounds (length sequence));
          max_gaps = fst (snd (error_bounds (length sequence)));
          max_gap_length = snd (snd (error_bounds (length sequence)))
      in \<lparr>nodes = [WFANode root_state 0],
          candidate_point = \<lparr>score_p = INT32_MAX, diagonal_p = 0, seq_offset_p = 0, node_offset_p = 0\<rparr>,
          candidate_node = 0,
          mismatch_w = mismatch_penalty, gap_open_w = gap_open_penalty,
          gap_extend = gap_extend_penalty,
          score_bound = max_mismatches * mismatch_penalty + max_gaps * gap_open_penalty
                        + max_gap_length * gap_extend_penalty,
          diagonals = [(0, 0)], max_diagonals = (0, 0)\<rparr>)"

definition decimal_error_bounds :: "nat \<Rightarrow> int \<times> int \<times> int" where
  \<comment> \<open>The three factors in exact arithmetic.\<close>
  "decimal_error_bounds n = (int (3 * n div 100 + 1), int (5 * n div 100 + 1), int (n div 10 + 1))"

definition is_root :: "nat \<Rightarrow> bool" where
  "is_root n = (n = 0)"

definition gap_penalty :: "wfa_tree \<Rightarrow> nat \<Rightarrow> int" where
  "gap_penalty t len = gap_open_w t + s32 (int len) * gap_extend t"

definition no_pos :: "pos_t \<Rightarrow> bool" where
  "no_pos pos = (id_of pos = 0)"

definition update_node :: "wfa_tree \<Rightarrow> nat \<Rightarrow> wavefront \<Rightarrow> int \<Rightarrow> int \<Rightarrow> nat \<Rightarrow> nat \<Rightarrow> wfa_tree option" where
  \<comment> \<open>\<^verbatim>\<open>nodes[n].update(type, score, diagonal, seq_offset, node_offset)\<close>.\<close>
  "update_node t n type score_at diagonal seq_off node_off =
     (case nth_opt (nodes t) n of
        None \<Rightarrow> None
      | Some nd \<Rightarrow>
          Some (t\<lparr>nodes := (nodes t)[n := node_update nd type score_at diagonal seq_off node_off]\<rparr>))"

definition at_dead_end :: "gbwt_graph \<Rightarrow> wfa_tree \<Rightarrow> match_pos \<Rightarrow> bool option" where
  "at_dead_end g t pos =
     (case pos_node pos of
        None \<Rightarrow> None
      | Some n \<Rightarrow>
          (case nth_opt (nodes t) n of
             None \<Rightarrow> None
           | Some nd \<Rightarrow> Some (dead_end nd \<and> node_offset_m pos \<ge> node_length nd g)))"

text \<open>
  \<^verbatim>\<open>WFATree::find_pos\<close> walks from a node towards the root. The walk ends at the root of
  a well-formed tree; the model bounds it by fuel.
\<close>

fun find_pos_loop :: "nat \<Rightarrow> gbwt_graph \<Rightarrow> string \<Rightarrow> wfa_tree \<Rightarrow> wavefront \<Rightarrow> nat \<Rightarrow> int \<Rightarrow> int \<Rightarrow> bool \<Rightarrow> bool \<Rightarrow> nat list \<Rightarrow> match_pos option" where
  "find_pos_loop 0 g sequence t type n score_at diagonal extendable_seq extendable_graph path_to = None"
| "find_pos_loop (Suc fuel) g sequence t type n score_at diagonal extendable_seq extendable_graph path_to =
     (case nth_opt (nodes t) n of
        None \<Rightarrow> None
      | Some nd \<Rightarrow>
          (let pos = node_find_pos nd type score_at diagonal (n # path_to)
           in if \<not> pos_empty pos then
                (if extendable_seq \<and> seq_offset_m pos \<ge> length sequence then Some empty_pos
                 else if extendable_graph then
                   (case at_dead_end g t pos of
                      None \<Rightarrow> None
                    | Some d \<Rightarrow> Some (if d then empty_pos else pos))
                 else Some pos)
              else if is_root n then Some empty_pos
              else find_pos_loop fuel g sequence t type (parent nd) score_at diagonal
                     extendable_seq extendable_graph (n # path_to)))"

definition find_pos :: "nat \<Rightarrow> gbwt_graph \<Rightarrow> string \<Rightarrow> wfa_tree \<Rightarrow> wavefront \<Rightarrow> nat \<Rightarrow> int \<Rightarrow> int \<Rightarrow> bool \<Rightarrow> bool \<Rightarrow> match_pos option" where
  "find_pos fuel g sequence t type n score_at diagonal extendable_seq extendable_graph =
     (if score_at < 0 then Some empty_pos
      else find_pos_loop fuel g sequence t type n score_at diagonal extendable_seq
             extendable_graph [])"

definition ins_predecessor :: "nat \<Rightarrow> gbwt_graph \<Rightarrow> string \<Rightarrow> wfa_tree \<Rightarrow> nat \<Rightarrow> int \<Rightarrow> int \<Rightarrow> (match_pos \<times> edit) option" where
  "ins_predecessor fuel g sequence t n score_at diagonal =
     (case find_pos fuel g sequence t MATCHES n (score_at - gap_open_w t - gap_extend t)
             (diagonal - 1) True False of
        None \<Rightarrow> None
      | Some opened \<Rightarrow>
          (case find_pos fuel g sequence t INSERTIONS n (score_at - gap_extend t)
                  (diagonal - 1) True False of
             None \<Rightarrow> None
           | Some extended \<Rightarrow>
               Some (if pos_less opened extended then (extended, Insertion)
                     else (opened, Match))))"

definition del_predecessor :: "nat \<Rightarrow> gbwt_graph \<Rightarrow> string \<Rightarrow> wfa_tree \<Rightarrow> nat \<Rightarrow> int \<Rightarrow> int \<Rightarrow> (match_pos \<times> edit) option" where
  "del_predecessor fuel g sequence t n score_at diagonal =
     (case find_pos fuel g sequence t MATCHES n (score_at - gap_open_w t - gap_extend t)
             (diagonal + 1) False True of
        None \<Rightarrow> None
      | Some opened \<Rightarrow>
          (case find_pos fuel g sequence t DELETIONS n (score_at - gap_extend t)
                  (diagonal + 1) False True of
             None \<Rightarrow> None
           | Some extended \<Rightarrow>
               Some (if pos_less opened extended then (extended, Deletion)
                     else (opened, Match))))"

definition step_diagonal :: "match_pos \<Rightarrow> match_pos" where
  \<comment> \<open>\<^verbatim>\<open>seq_offset++; node_offset++\<close> on a non-empty position.\<close>
  "step_diagonal pos =
     (if pos_empty pos then pos
      else pos\<lparr>seq_offset_m := u32 (seq_offset_m pos + 1),
               node_offset_m := u32 (node_offset_m pos + 1)\<rparr>)"

definition match_predecessor :: "nat \<Rightarrow> gbwt_graph \<Rightarrow> string \<Rightarrow> wfa_tree \<Rightarrow> nat \<Rightarrow> int \<Rightarrow> int \<Rightarrow> (match_pos \<times> edit) option" where
  "match_predecessor fuel g sequence t n score_at diagonal =
     (case find_pos fuel g sequence t INSERTIONS n score_at diagonal False False of
        None \<Rightarrow> None
      | Some ins \<Rightarrow>
          (case find_pos fuel g sequence t DELETIONS n score_at diagonal False False of
             None \<Rightarrow> None
           | Some del \<Rightarrow>
               (case find_pos fuel g sequence t MATCHES n (score_at - mismatch_w t) diagonal
                       False False of
                  None \<Rightarrow> None
                | Some found \<Rightarrow>
                    (let subst = step_diagonal found
                     in if pos_less ins del then
                          Some (if pos_less del subst then (subst, Mismatch) else (del, Deletion))
                        else
                          Some (if pos_less ins subst then (subst, Mismatch)
                                else (ins, Insertion))))))"

definition predecessor_offset :: "gbwt_graph \<Rightarrow> wfa_tree \<Rightarrow> nat \<Rightarrow> nat \<Rightarrow> (nat \<times> nat) option" where
  \<comment> \<open>The node and the offset after the update.\<close>
  "predecessor_offset g t n off =
     (if off > 0 then Some (n, off - 1)
      else
        (case nth_opt (nodes t) n of
           None \<Rightarrow> None
         | Some nd \<Rightarrow>
             (case nth_opt (nodes t) (parent nd) of
                None \<Rightarrow> None
              | Some up \<Rightarrow> Some (parent nd, u32 (size_sub (node_length up g) 1)))))"

definition trim_point :: "aligner \<Rightarrow> nat \<Rightarrow> wfa_point \<times> nat \<times> int \<Rightarrow> wfa_point \<Rightarrow> wfa_point \<times> nat \<times> int" where
  \<comment> \<open>The body of the inner loop of \<^verbatim>\<open>trim\<close>, on the candidate point, its node and the
      best score.\<close>
  "trim_point al n best p =
     (if alignment_score p al > snd (snd best) then (p, n, alignment_score p al) else best)"

definition trim :: "wfa_tree \<Rightarrow> aligner \<Rightarrow> wfa_tree" where
  "trim t al =
     (let start = (\<lparr>score_p = 0, diagonal_p = 0, seq_offset_p = 0, node_offset_p = 0\<rparr>, 0, 0);
          best = foldl (\<lambda>best n. foldl (trim_point al n) best (wavefronts (nodes t ! n) MATCHES))
                   start [0 ..< length (nodes t)]
      in t\<lparr>candidate_point := fst best, candidate_node := fst (snd best)\<rparr>)"

definition get_leaves :: "wfa_tree \<Rightarrow> nat list" where
  "get_leaves t = filter (\<lambda>n. is_leaf (nodes t ! n)) [0 ..< length (nodes t)]"

definition update_range :: "wfa_tree \<Rightarrow> int \<times> int \<Rightarrow> int \<Rightarrow> (int \<times> int) option" where
  "update_range t rng score_at =
     (if score_at > 0 then
        (case nth_opt (diagonals t) (nat score_at) of
           None \<Rightarrow> None
         | Some d \<Rightarrow> Some (min (fst rng) (fst d), max (snd rng) (snd d)))
      else Some rng)"

definition get_diagonals :: "wfa_tree \<Rightarrow> int \<Rightarrow> ((int \<times> int) \<times> wfa_tree) option" where
  "get_diagonals t score_at =
     (case update_range t (0, 0) (score_at - mismatch_w t) of
        None \<Rightarrow> None
      | Some r1 \<Rightarrow>
          (case update_range t r1 (score_at - gap_open_w t - gap_extend t) of
             None \<Rightarrow> None
           | Some r2 \<Rightarrow>
               (case update_range t r2 (score_at - gap_extend t) of
                  None \<Rightarrow> None
                | Some r3 \<Rightarrow>
                    (let rng = (fst r3 - 1, snd r3 + 1);
                         wanted = nat (score_at + 1);
                         resized = take wanted (diagonals t)
                                   @ replicate (wanted - length (diagonals t)) (0, 0)
                     in if score_at + 1 \<le> 0 then None
                        else Some (rng,
                               t\<lparr>max_diagonals := (min (fst (max_diagonals t)) (fst rng),
                                                   max (snd (max_diagonals t)) (snd rng)),
                                 diagonals := resized[length resized - 1 := rng]\<rparr>)))))"

definition add_child :: "nat \<Rightarrow> wfa_tree \<Rightarrow> search_state \<Rightarrow> wfa_tree" where
  \<comment> \<open>The callback of \<^verbatim>\<open>propagate\<close> on one successor state of node \<open>n\<close>.\<close>
  "add_child n t child =
     t\<lparr>nodes := (nodes t)[n := (nodes t ! n)\<lparr>children := children (nodes t ! n) @ [u32 (length (nodes t))]\<rparr>]
                @ [WFANode child n]\<rparr>"

fun update_children :: "wfa_tree \<Rightarrow> nat list \<Rightarrow> wavefront \<Rightarrow> int \<Rightarrow> int \<Rightarrow> nat \<Rightarrow> wfa_tree option" where
  "update_children t [] type score_at diagonal seq_off = Some t"
| "update_children t (child # rest) type score_at diagonal seq_off =
     (case update_node t child type score_at diagonal seq_off 0 of
        None \<Rightarrow> None
      | Some t' \<Rightarrow> update_children t' rest type score_at diagonal seq_off)"

definition propagate :: "gbwt_graph \<Rightarrow> wfa_tree \<Rightarrow> match_pos \<Rightarrow> int \<Rightarrow> int \<Rightarrow> wavefront \<Rightarrow> (bool \<times> wfa_tree) option" where
  "propagate g t pos score_at diagonal type =
     (if \<not> at_last_node pos then Some (False, t)
      else
        (case pos_node pos of
           None \<Rightarrow> None
         | Some n \<Rightarrow>
             (case nth_opt (nodes t) n of
                None \<Rightarrow> None
              | Some nd \<Rightarrow>
                  (if node_offset_m pos < node_length nd g then Some (False, t)
                   else
                     (let succs = follow_paths g (state_n nd);
                          grown = foldl (add_child n) t succs;
                          t1 = (if expanded nd then t
                                else if succs = []
                                then t\<lparr>nodes := (nodes t)[n := nd\<lparr>dead_end := True\<rparr>]\<rparr>
                                else grown);
                          kids = children (nodes t1 ! n)
                      in case update_children t1 kids type score_at diagonal (seq_offset_m pos) of
                           None \<Rightarrow> None
                         | Some t2 \<Rightarrow> Some (kids \<noteq> [], t2))))))"

text \<open>
  \<^verbatim>\<open>extend_over\<close>: the furthest match on one diagonal, from each of the given leaves.
  \<open>extend_walk\<close> is the inner \<^verbatim>\<open>while (true)\<close> loop, from the position found for a leaf.
  The recursion into the children that \<^verbatim>\<open>propagate\<close> has made and the inner loop take
  fuel.
\<close>

definition reach_candidate :: "string \<Rightarrow> wfa_tree \<Rightarrow> int \<Rightarrow> int \<Rightarrow> pos_t \<Rightarrow> bool \<Rightarrow> match_pos \<Rightarrow> nat \<Rightarrow> wfa_tree" where
  \<comment> \<open>The candidate of \<^verbatim>\<open>extend_over\<close> after the run of matches to \<open>pos\<close> in node \<open>n\<close>.\<close>
  "reach_candidate sequence t score_at diagonal to may_reach_to pos n =
     (if (may_reach_to \<and> node_offset_m pos > offset_of to)
         \<or> (no_pos to \<and> seq_offset_m pos \<ge> length sequence)
      then
        (let overshoot = (if no_pos to then 0
                          else u32 (size_sub (size_sub (node_offset_m pos) (offset_of to)) 1));
             gap_length = u32 (size_sub (length sequence) (seq_offset_m pos) + overshoot);
             new_score = (if gap_length > 0 then score_at + gap_penalty t gap_length else score_at)
         in if new_score < score_p (candidate_point t)
            then t\<lparr>candidate_point :=
                      \<lparr>score_p = new_score, diagonal_p = diagonal,
                       seq_offset_p = u32 (size_sub (seq_offset_m pos) overshoot),
                       node_offset_p = u32 (offset_of to + 1)\<rparr>,
                    candidate_node := n\<rparr>
            else t)
      else t)"

fun extend_over :: "nat \<Rightarrow> gbwt_graph \<Rightarrow> string \<Rightarrow> int \<Rightarrow> int \<Rightarrow> pos_t \<Rightarrow> nat list \<Rightarrow> wfa_tree \<Rightarrow> wfa_tree option"
  and extend_walk :: "nat \<Rightarrow> gbwt_graph \<Rightarrow> string \<Rightarrow> int \<Rightarrow> int \<Rightarrow> pos_t \<Rightarrow> nat \<Rightarrow> match_pos \<Rightarrow> wfa_tree \<Rightarrow> wfa_tree option" where
  "extend_over fuel g sequence score_at diagonal to [] t = Some t"
| "extend_over fuel g sequence score_at diagonal to (leaf # leaves) t =
     (case find_pos fuel g sequence t MATCHES leaf score_at diagonal False False of
        None \<Rightarrow> None
      | Some pos \<Rightarrow>
          (if pos_empty pos then extend_over fuel g sequence score_at diagonal to leaves t
           else
             (case extend_walk fuel g sequence score_at diagonal to leaf pos t of
                None \<Rightarrow> None
              | Some t' \<Rightarrow> extend_over fuel g sequence score_at diagonal to leaves t')))"
| "extend_walk 0 g sequence score_at diagonal to leaf pos t = None"
| "extend_walk (Suc fuel) g sequence score_at diagonal to leaf pos t =
     (case pos_node pos of
        None \<Rightarrow> None
      | Some n \<Rightarrow>
          (case nth_opt (nodes t) n of
             None \<Rightarrow> None
           | Some nd \<Rightarrow>
               (let may_reach_to = (same_node nd to \<and> node_offset_m pos \<le> offset_of to);
                    pos1 = node_match_forward sequence
                             (get_sequence_view g (node_to_handle (node (state_n nd)))) pos;
                    t1 = reach_candidate sequence t score_at diagonal to may_reach_to pos1 n
                in case update_node t1 n MATCHES score_at diagonal (seq_offset_m pos1)
                          (node_offset_m pos1) of
                     None \<Rightarrow> None
                   | Some t2 \<Rightarrow>
                       (if node_offset_m pos1 < node_length nd g then Some t2
                        else if at_last_node pos1 then
                          (case propagate g t2 pos1 score_at diagonal MATCHES of
                             None \<Rightarrow> None
                           | Some (True, t3) \<Rightarrow>
                               (case nth_opt (nodes t3) leaf of
                                  None \<Rightarrow> None
                                | Some lf \<Rightarrow>
                                    extend_over fuel g sequence score_at diagonal to
                                      (children lf) t3)
                           | Some (False, t3) \<Rightarrow> Some t3)
                        else extend_walk fuel g sequence score_at diagonal to leaf
                               (pos1\<lparr>path_m := tl (path_m pos1), node_offset_m := 0\<rparr>) t2))))"

fun extend_diagonals :: "nat \<Rightarrow> gbwt_graph \<Rightarrow> string \<Rightarrow> int \<Rightarrow> pos_t \<Rightarrow> int list \<Rightarrow> wfa_tree \<Rightarrow> wfa_tree option" where
  "extend_diagonals fuel g sequence score_at to [] t = Some t"
| "extend_diagonals fuel g sequence score_at to (diagonal # rest) t =
     (case extend_over fuel g sequence score_at diagonal to (get_leaves t) t of
        None \<Rightarrow> None
      | Some t' \<Rightarrow> extend_diagonals fuel g sequence score_at to rest t')"

definition wfa_extend :: "nat \<Rightarrow> gbwt_graph \<Rightarrow> string \<Rightarrow> int \<Rightarrow> pos_t \<Rightarrow> wfa_tree \<Rightarrow> wfa_tree option" where
  \<comment> \<open>\<^verbatim>\<open>WFATree::extend\<close>.\<close>
  "wfa_extend fuel g sequence score_at to t =
     extend_diagonals fuel g sequence score_at to
       [fst (max_diagonals t) .. snd (max_diagonals t)] t"

text \<open>\<^verbatim>\<open>WFATree::next\<close>: the body of the loop over the leaves, then the two loops.\<close>

definition past_candidate :: "string \<Rightarrow> wfa_tree \<Rightarrow> int \<Rightarrow> int \<Rightarrow> pos_t \<Rightarrow> wfa_node \<Rightarrow> match_pos \<Rightarrow> nat \<Rightarrow> wfa_tree" where
  \<comment> \<open>The candidate of \<^verbatim>\<open>next\<close> for a position just past the end position.\<close>
  "past_candidate sequence t score_at diagonal to nd subst n =
     (if same_node nd to \<and> node_offset_m subst = offset_of to + 1 then
        (let gap_length = u32 (size_sub (length sequence) (seq_offset_m subst));
             new_score = (if gap_length > 0 then score_at + gap_penalty t gap_length else score_at)
         in if new_score < score_p (candidate_point t)
            then t\<lparr>candidate_point :=
                      \<lparr>score_p = new_score, diagonal_p = diagonal,
                       seq_offset_p = seq_offset_m subst, node_offset_p = node_offset_m subst\<rparr>,
                    candidate_node := n\<rparr>
            else t)
      else t)"

definition next_insertion :: "nat \<Rightarrow> gbwt_graph \<Rightarrow> string \<Rightarrow> int \<Rightarrow> int \<Rightarrow> nat \<Rightarrow> wfa_tree \<Rightarrow> (match_pos \<times> wfa_tree) option" where
  "next_insertion fuel g sequence score_at diagonal leaf t =
     (case ins_predecessor fuel g sequence t leaf score_at diagonal of
        None \<Rightarrow> None
      | Some (found, e) \<Rightarrow>
          (if pos_empty found then Some (found, t)
           else
             (let ins = found\<lparr>seq_offset_m := u32 (seq_offset_m found + 1)\<rparr>
              in case pos_node ins of
                   None \<Rightarrow> None
                 | Some n \<Rightarrow>
                     (case update_node t n INSERTIONS score_at diagonal (seq_offset_m ins)
                             (node_offset_m ins) of
                        None \<Rightarrow> None
                      | Some t' \<Rightarrow> Some (ins, t')))))"

definition next_deletion :: "nat \<Rightarrow> gbwt_graph \<Rightarrow> string \<Rightarrow> int \<Rightarrow> int \<Rightarrow> nat \<Rightarrow> wfa_tree \<Rightarrow> (match_pos \<times> wfa_tree) option" where
  "next_deletion fuel g sequence score_at diagonal leaf t =
     (case del_predecessor fuel g sequence t leaf score_at diagonal of
        None \<Rightarrow> None
      | Some (found, e) \<Rightarrow>
          (if pos_empty found then Some (found, t)
           else
             (let del = found\<lparr>node_offset_m := u32 (node_offset_m found + 1)\<rparr>
              in case pos_node del of
                   None \<Rightarrow> None
                 | Some n \<Rightarrow>
                     (case update_node t n DELETIONS score_at diagonal (seq_offset_m del)
                             (node_offset_m del) of
                        None \<Rightarrow> None
                      | Some t' \<Rightarrow>
                          (case propagate g t' del score_at diagonal DELETIONS of
                             None \<Rightarrow> None
                           | Some (found_children, t'') \<Rightarrow> Some (del, t''))))))"

definition next_leaf :: "nat \<Rightarrow> gbwt_graph \<Rightarrow> string \<Rightarrow> int \<Rightarrow> int \<Rightarrow> pos_t \<Rightarrow> nat \<Rightarrow> wfa_tree \<Rightarrow> wfa_tree option" where
  "next_leaf fuel g sequence score_at diagonal to leaf t =
     (case next_insertion fuel g sequence score_at diagonal leaf t of
        None \<Rightarrow> None
      | Some (ins, t1) \<Rightarrow>
          (case next_deletion fuel g sequence score_at diagonal leaf t1 of
             None \<Rightarrow> None
           | Some (del, t2) \<Rightarrow>
               (case find_pos fuel g sequence t2 MATCHES leaf (score_at - mismatch_w t2) diagonal
                       True True of
                  None \<Rightarrow> None
                | Some found \<Rightarrow>
                    (let subst = pos_max (pos_max (step_diagonal found) ins) del
                     in if pos_empty subst then Some t2
                        else
                          (case pos_node subst of
                             None \<Rightarrow> None
                           | Some n \<Rightarrow>
                               (case nth_opt (nodes t2) n of
                                  None \<Rightarrow> None
                                | Some nd \<Rightarrow>
                                    (case update_node
                                            (past_candidate sequence t2 score_at diagonal to nd subst n)
                                            n MATCHES score_at diagonal (seq_offset_m subst)
                                            (node_offset_m subst) of
                                       None \<Rightarrow> None
                                     | Some t3 \<Rightarrow>
                                         map_option snd
                                           (propagate g t3 subst score_at diagonal MATCHES))))))))"

fun next_leaves :: "nat \<Rightarrow> gbwt_graph \<Rightarrow> string \<Rightarrow> int \<Rightarrow> int \<Rightarrow> pos_t \<Rightarrow> nat list \<Rightarrow> wfa_tree \<Rightarrow> wfa_tree option" where
  "next_leaves fuel g sequence score_at diagonal to [] t = Some t"
| "next_leaves fuel g sequence score_at diagonal to (leaf # leaves) t =
     (case next_leaf fuel g sequence score_at diagonal to leaf t of
        None \<Rightarrow> None
      | Some t' \<Rightarrow> next_leaves fuel g sequence score_at diagonal to leaves t')"

fun next_diagonals :: "nat \<Rightarrow> gbwt_graph \<Rightarrow> string \<Rightarrow> int \<Rightarrow> pos_t \<Rightarrow> int list \<Rightarrow> wfa_tree \<Rightarrow> wfa_tree option" where
  "next_diagonals fuel g sequence score_at to [] t = Some t"
| "next_diagonals fuel g sequence score_at to (diagonal # rest) t =
     (case next_leaves fuel g sequence score_at diagonal to (get_leaves t) t of
        None \<Rightarrow> None
      | Some t' \<Rightarrow> next_diagonals fuel g sequence score_at to rest t')"

definition wfa_next :: "nat \<Rightarrow> gbwt_graph \<Rightarrow> string \<Rightarrow> int \<Rightarrow> pos_t \<Rightarrow> wfa_tree \<Rightarrow> wfa_tree option" where
  \<comment> \<open>\<^verbatim>\<open>WFATree::next\<close>.\<close>
  "wfa_next fuel g sequence score_at to t =
     (case get_diagonals t score_at of
        None \<Rightarrow> None
      | Some (rng, t') \<Rightarrow>
          next_diagonals fuel g sequence score_at to [fst rng .. snd rng] t')"

subsection \<open>WFAExtender::connect\<close>

text \<open>
  The main loop: extend the wavefronts of the current score, stop when the candidate is
  at most that score or when the next score is above the bound, otherwise compute the
  wavefronts of the next score. One unit of fuel for each score.
\<close>

fun connect_loop :: "nat \<Rightarrow> gbwt_graph \<Rightarrow> string \<Rightarrow> pos_t \<Rightarrow> int \<Rightarrow> wfa_tree \<Rightarrow> wfa_tree option" where
  "connect_loop 0 g sequence to score_at t = None"
| "connect_loop (Suc fuel) g sequence to score_at t =
     (case wfa_extend fuel g sequence score_at to t of
        None \<Rightarrow> None
      | Some t1 \<Rightarrow>
          (if score_p (candidate_point t1) \<le> score_at then Some t1
           else if score_at + 1 > score_bound t1 then Some t1
           else
             (case wfa_next fuel g sequence (score_at + 1) to t1 of
                None \<Rightarrow> None
              | Some t2 \<Rightarrow> connect_loop fuel g sequence to (score_at + 1) t2)))"

definition append_edit :: "wfa_alignment \<Rightarrow> edit \<Rightarrow> nat \<Rightarrow> wfa_alignment" where
  \<comment> \<open>\<^verbatim>\<open>WFAAlignment::append\<close>.\<close>
  "append_edit a e len =
     (if len = 0 then a
      else if edits a = [] \<or> fst (last (edits a)) \<noteq> e then a\<lparr>edits := edits a @ [(e, len)]\<rparr>
      else a\<lparr>edits := butlast (edits a) @ [(e, u32 (snd (last (edits a)) + len))]\<rparr>)"

definition final_offset :: "wfa_alignment \<Rightarrow> gbwt_graph \<Rightarrow> nat" where
  \<comment> \<open>\<^verbatim>\<open>WFAAlignment::final_offset\<close>, in \<^verbatim>\<open>uint32_t\<close> arithmetic.\<close>
  "final_offset a g =
     (let used = foldl (\<lambda>off e. if fst e \<noteq> Insertion then u32 (off + snd e) else off)
                   (node_offset a) (edits a)
      in foldl (\<lambda>off h. u32 (off + 2 ^ 32 - u32 (get_length g h))) used (butlast (path_a a)))"

fun path_to_root :: "nat \<Rightarrow> wfa_tree \<Rightarrow> nat \<Rightarrow> handle list \<Rightarrow> handle list option" where
  \<comment> \<open>The handles from a node to the root, pushed in that order.\<close>
  "path_to_root 0 t n acc = None"
| "path_to_root (Suc fuel) t n acc =
     (case nth_opt (nodes t) n of
        None \<Rightarrow> None
      | Some nd \<Rightarrow>
          (let acc' = acc @ [node_to_handle (node (state_n nd))]
           in if is_root n then Some acc' else path_to_root fuel t (parent nd) acc'))"

text \<open>
  The backtrace of the edits, from the candidate point to the start: the state is the
  current point, its node, the kind of edit to undo next and the alignment so far.
\<close>

fun backtrace :: "nat \<Rightarrow> gbwt_graph \<Rightarrow> string \<Rightarrow> wfa_tree \<Rightarrow> wfa_point \<Rightarrow> nat \<Rightarrow> edit \<Rightarrow> wfa_alignment \<Rightarrow> wfa_alignment option" where
  "backtrace 0 g sequence t point n e result = None"
| "backtrace (Suc fuel) g sequence t point n e result =
     (if \<not> (seq_offset_p point > 0 \<or> diagonal_p point \<noteq> 0) then Some result
      else
        (case e of
           Match \<Rightarrow>
             (case match_predecessor fuel g sequence t n (score_p point) (diagonal_p point) of
                None \<Rightarrow> None
              | Some (pre, e') \<Rightarrow>
                  (case pos_node pre of
                     None \<Rightarrow> None
                   | Some n' \<Rightarrow>
                       backtrace fuel g sequence t
                         (point\<lparr>seq_offset_p := seq_offset_m pre, node_offset_p := node_offset_m pre\<rparr>)
                         n' e'
                         (append_edit result Match
                            (u32 (seq_offset_p point + 2 ^ 32 - seq_offset_m pre)))))
         | Mismatch \<Rightarrow>
             (case predecessor_offset g t n (node_offset_p point) of
                None \<Rightarrow> None
              | Some (n', off') \<Rightarrow>
                  backtrace fuel g sequence t
                    (point\<lparr>seq_offset_p := u32 (seq_offset_p point + 2 ^ 32 - 1),
                           node_offset_p := off', score_p := score_p point - mismatch_w t\<rparr>)
                    n' Match (append_edit result Mismatch 1))
         | Insertion \<Rightarrow>
             (case ins_predecessor fuel g sequence t n (score_p point) (diagonal_p point) of
                None \<Rightarrow> None
              | Some (pre, e') \<Rightarrow>
                  backtrace fuel g sequence t
                    (point\<lparr>seq_offset_p := u32 (seq_offset_p point + 2 ^ 32 - 1),
                           score_p := (if e' = Insertion then score_p point - gap_extend t
                                       else score_p point - (gap_open_w t + gap_extend t)),
                           diagonal_p := diagonal_p point - 1\<rparr>)
                    n e' (append_edit result Insertion 1))
         | Deletion \<Rightarrow>
             (case del_predecessor fuel g sequence t n (score_p point) (diagonal_p point) of
                None \<Rightarrow> None
              | Some (pre, e') \<Rightarrow>
                  (case predecessor_offset g t n (node_offset_p point) of
                     None \<Rightarrow> None
                   | Some (n', off') \<Rightarrow>
                       backtrace fuel g sequence t
                         (point\<lparr>node_offset_p := off',
                                score_p := (if e' = Deletion then score_p point - gap_extend t
                                            else score_p point - (gap_open_w t + gap_extend t)),
                                diagonal_p := diagonal_p point + 1\<rparr>)
                         n' e' (append_edit result Deletion 1)))))"

definition build_alignment :: "nat \<Rightarrow> gbwt_graph \<Rightarrow> aligner \<Rightarrow> string \<Rightarrow> pos_t \<Rightarrow> bool \<Rightarrow> wfa_tree \<Rightarrow> wfa_alignment option" where
  \<comment> \<open>The alignment of the candidate point: the path, the implicit final insertion of a
      full-length alignment, the backtrace.\<close>
  "build_alignment fuel g al sequence from full_length t =
     (case path_to_root fuel t (candidate_node t) [] of
        None \<Rightarrow> None
      | Some pushed \<Rightarrow>
          (let cp = candidate_point t;
               result = \<lparr>path_a = rev pushed, edits = [], node_offset = u32 (offset_of from),
                         seq_offset = 0, length_a = seq_offset_p cp,
                         score_a = alignment_score cp al\<rparr>;
               final_insertion = u32 (size_sub (length sequence) (seq_offset_p cp));
               with_insertion = (full_length \<and> seq_offset_p cp < length sequence);
               result1 = (if with_insertion then append_edit result Insertion final_insertion
                          else result);
               point = (if with_insertion
                        then cp\<lparr>score_p := score_p cp - gap_penalty t final_insertion\<rparr> else cp)
           in case backtrace fuel g sequence t point (candidate_node t) Match result1 of
                None \<Rightarrow> None
              | Some traced \<Rightarrow>
                  (let result2 = traced\<lparr>edits := rev (edits traced)\<rparr>
                   in Some (if final_offset result2 g = 0
                            then result2\<lparr>path_a := butlast (path_a result2)\<rparr>
                            else result2))))"

definition connect_finish :: "nat \<Rightarrow> gbwt_graph \<Rightarrow> aligner \<Rightarrow> string \<Rightarrow> pos_t \<Rightarrow> pos_t \<Rightarrow> wfa_tree \<Rightarrow> wfa_alignment option" where
  \<comment> \<open>The part of \<^verbatim>\<open>connect\<close> after the main loop.\<close>
  "connect_finish fuel g al sequence from to t =
     (if score_p (candidate_point t) > score_bound t \<and> \<not> no_pos to then Some empty_alignment
      else
        (let trimmed = (score_p (candidate_point t) > score_bound t);
             t' = (if trimmed then trim t al else t)
         in if seq_offset_p (candidate_point t') = 0 then Some empty_alignment
            else build_alignment fuel g al sequence from (\<not> trimmed) t'))"

definition connect_masked :: "nat \<Rightarrow> gbwt_graph \<Rightarrow> aligner \<Rightarrow> (nat \<Rightarrow> int \<times> int \<times> int) \<Rightarrow> string \<Rightarrow> search_state \<Rightarrow> pos_t \<Rightarrow> pos_t \<Rightarrow> wfa_alignment option" where
  \<comment> \<open>The work of \<^verbatim>\<open>connect\<close> on the masked read.\<close>
  "connect_masked fuel g al error_bounds sequence root_state from to =
     (case connect_loop fuel g sequence to 0 (WFATree error_bounds sequence root_state al) of
        None \<Rightarrow> None
      | Some t \<Rightarrow> connect_finish fuel g al sequence from to t)"

definition connect :: "nat \<Rightarrow> extender \<Rightarrow> (nat \<Rightarrow> int \<times> int \<times> int) \<Rightarrow> string \<Rightarrow> pos_t \<Rightarrow> pos_t \<Rightarrow> wfa_alignment option" where
  "connect fuel this error_bounds sequence from to =
     (case (graph this, aligner this) of
        (Some g, Some al) \<Rightarrow>
          (if sequence = [] then Some empty_alignment
           else
             (let root_state = get_state g (get_handle (id_of from) (is_rev from))
              in if state_empty root_state then Some empty_alignment
                 else
                   (case mask_read (char_signed this) sequence of
                      None \<Rightarrow> None
                    | Some masked \<Rightarrow>
                        connect_masked fuel g al error_bounds masked root_state from to)))
      | _ \<Rightarrow> Some empty_alignment)"

definition suffix_alignment :: "nat \<Rightarrow> extender \<Rightarrow> (nat \<Rightarrow> int \<times> int \<times> int) \<Rightarrow> string \<Rightarrow> pos_t \<Rightarrow> wfa_alignment option" where
  \<comment> \<open>\<^verbatim>\<open>WFAExtender::suffix\<close>: no destination.\<close>
  "suffix_alignment fuel this error_bounds sequence from =
     connect fuel this error_bounds sequence from \<lparr>id_of = 0, is_rev = False, offset_of = 0\<rparr>"

subsection \<open>Auxiliary notions for the wavefront aligner\<close>

definition untouched :: "wfa_tree \<Rightarrow> bool" where
  \<comment> \<open>A tree as the constructor leaves it: the root alone, no child, no point on any
      wavefront, the initial candidate.\<close>
  "untouched t =
     (length (nodes t) = 1 \<and> children (nodes t ! 0) = []
      \<and> wavefronts (nodes t ! 0) MATCHES = [] \<and> wavefronts (nodes t ! 0) INSERTIONS = []
      \<and> wavefronts (nodes t ! 0) DELETIONS = []
      \<and> candidate_point t = \<lparr>score_p = INT32_MAX, diagonal_p = 0, seq_offset_p = 0, node_offset_p = 0\<rparr>
      \<and> candidate_node t = 0)"

definition recorded_matches :: "wfa_tree \<Rightarrow> (nat \<times> wfa_point) list" where
  \<comment> \<open>The points of the match wavefronts of all nodes, each with its node, in the order
      \<^verbatim>\<open>trim\<close> visits them.\<close>
  "recorded_matches t =
     concat (map (\<lambda>n. map (Pair n) (wavefronts (nodes t ! n) MATCHES)) [0 ..< length (nodes t)])"

subsection \<open>Examples for the wavefront aligner\<close>

definition toy_extender :: extender where
  "toy_extender = \<lparr>graph = Some toy_graph, aligner = Some toy_aligner, char_signed = True\<rparr>"

definition toy_from :: pos_t where
  "toy_from = \<lparr>id_of = 1, is_rev = False, offset_of = 0\<rparr>"

definition toy_to :: pos_t where
  "toy_to = \<lparr>id_of = 2, is_rev = False, offset_of = 0\<rparr>"

definition no_destination :: pos_t where
  \<comment> \<open>The position \<^verbatim>\<open>pos_t(0, false, 0)\<close> that \<^verbatim>\<open>suffix\<close> passes.\<close>
  "no_destination = \<lparr>id_of = 0, is_rev = False, offset_of = 0\<rparr>"

definition null_extender :: extender where
  \<comment> \<open>The default-constructed extender: no graph, no scoring model.\<close>
  "null_extender = \<lparr>graph = None, aligner = None, char_signed = True\<rparr>"

subsection \<open>Properties of the scoring\<close>

lemma s32_idem: "s32 (s32 x) = s32 x"
  by (simp add: s32_def)

lemma s32_add: "s32 (s32 a + s32 b) = s32 (a + b)"
  by (simp add: s32_def signed_take_bit_add)

lemma s32_diff: "s32 (s32 a - s32 b) = s32 (a - b)"
  by (simp add: s32_def signed_take_bit_diff)

lemma s32_fits: "fits_int32 x \<Longrightarrow> s32 x = x"
  unfolding s32_def fits_int32_def
  by (subst signed_take_bit_int_eq_self_iff) simp

lemma set_score_wrapped:
  assumes "fst (read_interval e) \<le> snd (read_interval e)"
  shows "score (set_score e al) = s32 (gapless_score e al)"
proof -
  let ?a = "(int (snd (read_interval e)) - int (fst (read_interval e))) * match al"
  let ?b = "int (internal_score e) * (match al + mismatch al)"
  let ?c = "of_bool (left_full e) * full_length_bonus al"
  let ?d = "of_bool (right_full e) * full_length_bonus al"
  have "score (set_score e al) = s32 (s32 (s32 (s32 ?a - s32 ?b) + s32 ?c) + s32 ?d)"
    by (simp add: set_score_def Let_def)
  also have "\<dots> = s32 (?a - ?b + ?c + ?d)"
    by (simp only: s32_diff s32_add)
  also have "?a - ?b + ?c + ?d = gapless_score e al"
    using assms by (simp add: gapless_score_def interval_length_def of_nat_diff algebra_simps)
  finally show ?thesis .
qed

text \<open>
  Claim C2. The score that \<^verbatim>\<open>set_score\<close> stores is the formula
  \<open>match * interval_length - internal_score * (match + mismatch)
  + full_length_bonus * (left_full + right_full)\<close>, in the 32-bit arithmetic of the
  field: always modulo \<open>2^32\<close>, and exactly whenever the formula's value is an
  \<^verbatim>\<open>int32_t\<close>. For an extension without mismatches that covers the whole read
  \<open>[0, n)\<close> with both ends full, this is \<open>match * n + 2 * full_length_bonus\<close>.
\<close>

theorem set_score_formula:
  assumes "fst (read_interval e) \<le> snd (read_interval e)"
  shows "score (set_score e al) = s32 (gapless_score e al)
       \<and> (fits_int32 (gapless_score e al) \<longrightarrow> score (set_score e al) = gapless_score e al)
       \<and> (internal_score e = 0 \<and> full e \<and> read_interval e = (0, n)
            \<and> fits_int32 (match al * int n + 2 * full_length_bonus al)
          \<longrightarrow> score (set_score e al) = match al * int n + 2 * full_length_bonus al)"
proof -
  have w: "score (set_score e al) = s32 (gapless_score e al)"
    using assms by (rule set_score_wrapped)
  have full_case: "gapless_score e al = match al * int n + 2 * full_length_bonus al"
    if "internal_score e = 0" "full e" "read_interval e = (0, n)"
    using that by (simp add: gapless_score_def full_def interval_length_def)
  show ?thesis
    using w full_case by (auto simp: s32_fits)
qed

theorem set_score_formula_witness:
  "score (set_score
      \<lparr>path = [2], offset = 0,
       state = \<lparr>forward = \<lparr>node = 2, range = (0, 0)\<rparr>, backward = \<lparr>node = 3, range = (0, 0)\<rparr>\<rparr>,
       read_interval = (0, 5), mismatch_positions = [], score = 0,
       left_full = True, right_full = True, left_maximal = True, right_maximal = True,
       internal_score = 0, old_score = 0\<rparr>
      \<lparr>match = 1, mismatch = 4, gap_open = 6, gap_extension = 1, full_length_bonus = 5\<rparr>) = 15"
  using set_score_formula [of
      "\<lparr>path = [2], offset = 0,
       state = \<lparr>forward = \<lparr>node = 2, range = (0, 0)\<rparr>, backward = \<lparr>node = 3, range = (0, 0)\<rparr>\<rparr>,
       read_interval = (0, 5), mismatch_positions = [], score = 0,
       left_full = True, right_full = True, left_maximal = True, right_maximal = True,
       internal_score = 0, old_score = 0\<rparr>"
      "\<lparr>match = 1, mismatch = 4, gap_open = 6, gap_extension = 1, full_length_bonus = 5\<rparr>" 5]
  by (simp add: full_def fits_int32_def)

subsection \<open>The mismatch ceiling of the seed extension\<close>

lemma below_limit_advance [simp]: "below_limit s l (advance_right m n) = below_limit s l m"
  by (simp add: below_limit_def advance_right_def)

lemma below_limit_retreat [simp]: "below_limit s l (retreat_left m n) = below_limit s l m"
  by (simp add: below_limit_def retreat_left_def)

lemma below_limit_count:
  "\<not> u32 (internal_score m + 1) \<ge> l \<Longrightarrow> below_limit s l (count_mismatch m)"
  by (simp add: below_limit_def count_mismatch_def)

lemma forward_chars_below:
  "below_limit s l m \<Longrightarrow> below_limit s l (fst (snd (forward_chars i seq target l (m, off))))"
  by (induction i arbitrary: m off) (auto simp: below_limit_count)

lemma match_forward_loop_below:
  "below_limit s l (fst st) \<Longrightarrow> below_limit s l (fst (match_forward_loop left seq target l st))"
proof (induction left seq target l st rule: match_forward_loop.induct)
  case (1 left seq target l m off)
  show ?case
  proof (cases "left = 0")
    case True
    then show ?thesis using 1 by (subst match_forward_loop.simps) simp
  next
    case False
    let ?len = "min left 8"
    show ?thesis
    proof (cases "take ?len (drop (snd (read_interval m)) seq) = take ?len (drop off target)")
      case True
      then show ?thesis using False 1 by (subst match_forward_loop.simps) (simp add: Let_def)
    next
      case neq: False
      obtain b m' off' where fc: "forward_chars ?len seq target l (m, off) = (b, m', off')"
        by (cases "forward_chars ?len seq target l (m, off)") auto
      have bl: "below_limit s l m'"
        using forward_chars_below [of s l m ?len seq target off] 1(3) fc by simp
      show ?thesis
      proof (cases b)
        case True
        then show ?thesis using False neq fc bl
          by (subst match_forward_loop.simps) (simp add: Let_def)
      next
        case bF: False
        from fc bF have fc': "forward_chars ?len seq target l (m, off) = (False, m', off')"
          by simp
        have "below_limit s l (fst (match_forward_loop (left - ?len) seq target l (m', off')))"
          using 1(2) [OF False refl neq fc' [symmetric] refl] bl by simp
        then show ?thesis using False neq fc bF
          by (subst match_forward_loop.simps) (simp add: Let_def)
      qed
    qed
  qed
qed

lemma backward_chars_below:
  "below_limit s l m \<Longrightarrow> below_limit s l (snd (backward_chars i seq target l m))"
  by (induction i arbitrary: m) (auto simp: below_limit_count)

lemma match_backward_loop_below:
  "below_limit s l m \<Longrightarrow> below_limit s l (match_backward_loop left seq target l m)"
proof (induction left seq target l m rule: match_backward_loop.induct)
  case (1 left seq target l m)
  show ?case
  proof (cases "left = 0")
    case True
    then show ?thesis using 1 by (subst match_backward_loop.simps) simp
  next
    case False
    let ?len = "min left 8"
    show ?thesis
    proof (cases "take ?len (drop (fst (read_interval m) - ?len) seq) = take ?len (drop (offset m - ?len) target)")
      case True
      then show ?thesis using False 1 by (subst match_backward_loop.simps) (simp add: Let_def)
    next
      case neq: False
      obtain b m' where fc: "backward_chars ?len seq target l m = (b, m')"
        by (cases "backward_chars ?len seq target l m") auto
      have bl: "below_limit s l m'"
        using backward_chars_below [of s l m ?len seq target] 1(3) fc by simp
      show ?thesis
      proof (cases b)
        case True
        then show ?thesis using False neq fc bl
          by (subst match_backward_loop.simps) (simp add: Let_def)
      next
        case bF: False
        from fc bF have fc': "backward_chars ?len seq target l m = (False, m')"
          by simp
        have "below_limit s l (match_backward_loop (left - ?len) seq target l m')"
          using 1(2) [OF False refl neq fc' [symmetric] refl] bl by simp
        then show ?thesis using False neq fc bF
          by (subst match_backward_loop.simps) (simp add: Let_def)
      qed
    qed
  qed
qed

lemma mismatch_limit_exact:
  assumes "max_mismatches + 1 < 2 ^ 32" "max_mismatches div 2 + old + 1 < 2 ^ 32"
  shows "mismatch_limit max_mismatches old = max (max_mismatches + 1) (max_mismatches div 2 + old + 1)"
  using assms by (simp add: mismatch_limit_def u32_def)

lemma extend_right_below:
  assumes "extend_right g al sequence b current s = Some (Some nx)"
  shows "below_limit (internal_score current) (mismatch_limit b (old_score current)) nx"
proof -
  let ?l = "mismatch_limit b (old_score current)"
  let ?c = "child_of current (offset current) s"
  let ?t = "get_sequence_view g (node_to_handle (node (forward s)))"
  obtain n1 off where mf: "match_forward ?c sequence ?t ?l = Some (n1, off)"
    using assms by (auto simp: extend_right_def Let_def split: option.splits)
  have "below_limit (internal_score current) ?l ?c"
    by (simp add: below_limit_def child_of_def)
  then have "below_limit (internal_score current) ?l
      (fst (match_forward_loop (min (length sequence - snd (read_interval ?c)) (length ?t))
              sequence ?t ?l (?c, 0)))"
    by (intro match_forward_loop_below) simp
  then have "below_limit (internal_score current) ?l n1"
    using mf by (auto simp: match_forward_def split: if_splits)
  moreover have "internal_score nx = internal_score n1"
    using assms mf
    by (auto simp: extend_right_def Let_def set_score_def split: if_splits)
  ultimately show ?thesis by (simp add: below_limit_def)
qed

lemma extend_left_below:
  assumes "extend_left g al sequence b current s = Some (Some nx)"
  shows "below_limit (internal_score current) (mismatch_limit b (old_score current)) nx"
proof -
  let ?l = "mismatch_limit b (old_score current)"
  let ?h = "node_to_handle (node_reverse (node (backward s)))"
  let ?c = "child_of current (get_length g ?h) s"
  let ?t = "get_sequence_view g ?h"
  obtain n1 where mf: "match_backward ?c sequence ?t ?l = Some n1"
    using assms by (auto simp: extend_left_def Let_def split: option.splits)
  have "below_limit (internal_score current) ?l ?c"
    by (simp add: below_limit_def child_of_def)
  then have "below_limit (internal_score current) ?l
      (match_backward_loop (min (fst (read_interval ?c)) (offset ?c)) sequence ?t ?l ?c)"
    by (rule match_backward_loop_below)
  then have "below_limit (internal_score current) ?l n1"
    using mf by (auto simp: match_backward_def split: if_splits)
  moreover have "internal_score nx = internal_score n1"
    using assms mf
    by (auto simp: extend_left_def Let_def set_score_def split: if_splits)
  ultimately show ?thesis by (simp add: below_limit_def)
qed

lemma forward_chars_stopped:
  "forward_chars i seq target l (m, off) = (True, m', off') \<Longrightarrow> l \<le> u32 (internal_score m' + 1)"
  by (induction i arbitrary: m off) (auto split: if_splits)

lemma forward_chars_through:
  "forward_chars i seq target l (m, off) = (False, m', off') \<Longrightarrow> off' = off + i"
proof (induction i arbitrary: m off)
  case 0
  then show ?case by simp
next
  case (Suc i)
  show ?case
  proof (cases "seq ! snd (read_interval m) \<noteq> target ! off")
    case True
    then have "forward_chars i seq target l (advance_right (count_mismatch m) 1, off + 1) = (False, m', off')"
      using Suc.prems by (auto split: if_splits)
    from Suc.IH [OF this] show ?thesis by simp
  next
    case False
    then have "forward_chars i seq target l (advance_right m 1, off + 1) = (False, m', off')"
      using Suc.prems by (auto split: if_splits)
    from Suc.IH [OF this] show ?thesis by simp
  qed
qed

lemma forward_chars_stop:
  "forward_chars i seq target l (m, off) = (b, m', off') \<Longrightarrow>
   (if b then l \<le> u32 (internal_score m' + 1) else off' = off + i)"
  using forward_chars_stopped forward_chars_through by (cases b) auto

lemma match_forward_loop_stop:
  "match_forward_loop left seq target l st = (m', off') \<Longrightarrow>
   off' = snd st + left \<or> l \<le> u32 (internal_score m' + 1)"
proof (induction left seq target l st rule: match_forward_loop.induct)
  case (1 left seq target l m off)
  show ?case
  proof (cases "left = 0")
    case True
    then show ?thesis using 1(3) by (subst (asm) match_forward_loop.simps) simp
  next
    case False
    let ?len = "min left 8"
    show ?thesis
    proof (cases "take ?len (drop (snd (read_interval m)) seq) = take ?len (drop off target)")
      case True
      then have "match_forward_loop (left - ?len) seq target l (advance_right m ?len, off + ?len) = (m', off')"
        using False 1(3) by (subst (asm) match_forward_loop.simps) (simp add: Let_def)
      from 1(1) [OF False refl True this] show ?thesis by auto
    next
      case neq: False
      obtain b m1 off1 where fc: "forward_chars ?len seq target l (m, off) = (b, m1, off1)"
        by (cases "forward_chars ?len seq target l (m, off)") auto
      show ?thesis
      proof (cases b)
        case True
        then have "(m', off') = (m1, off1)"
          using False neq fc 1(3) by (subst (asm) match_forward_loop.simps) (simp add: Let_def)
        then show ?thesis using forward_chars_stop [OF fc] True by simp
      next
        case bF: False
        from fc bF have fc': "forward_chars ?len seq target l (m, off) = (False, m1, off1)"
          by simp
        have rec: "match_forward_loop (left - ?len) seq target l (m1, off1) = (m', off')"
          using False neq fc' 1(3) by (subst (asm) match_forward_loop.simps) (simp add: Let_def)
        have "off1 = off + ?len"
          using forward_chars_stop [OF fc'] by simp
        then show ?thesis
          using 1(2) [OF False refl neq fc' [symmetric] refl rec] by auto
      qed
    qed
  qed
qed

lemma backward_chars_stopped:
  "backward_chars i seq target l m = (True, m') \<Longrightarrow> l \<le> u32 (internal_score m' + 1)"
  by (induction i arbitrary: m) (auto split: if_splits)

lemma backward_chars_through:
  "backward_chars i seq target l m = (False, m') \<Longrightarrow> offset m' = offset m - i"
proof (induction i arbitrary: m)
  case 0
  then show ?case by simp
next
  case (Suc i)
  show ?case
  proof (cases "seq ! (fst (read_interval m) - 1) \<noteq> target ! (offset m - 1)")
    case True
    then have "backward_chars i seq target l (retreat_left (count_mismatch m) 1) = (False, m')"
      using Suc.prems by (auto split: if_splits)
    from Suc.IH [OF this] show ?thesis
      by (simp add: retreat_left_def count_mismatch_def)
  next
    case False
    then have "backward_chars i seq target l (retreat_left m 1) = (False, m')"
      using Suc.prems by (auto split: if_splits)
    from Suc.IH [OF this] show ?thesis
      by (simp add: retreat_left_def)
  qed
qed

lemma backward_chars_stop:
  "backward_chars i seq target l m = (b, m') \<Longrightarrow>
   (if b then l \<le> u32 (internal_score m' + 1) else offset m' = offset m - i)"
  using backward_chars_stopped backward_chars_through by (cases b) auto

lemma match_backward_loop_stop:
  "match_backward_loop left seq target l m = m' \<Longrightarrow>
   offset m' = offset m - left \<or> l \<le> u32 (internal_score m' + 1)"
proof (induction left seq target l m rule: match_backward_loop.induct)
  case (1 left seq target l m)
  show ?case
  proof (cases "left = 0")
    case True
    then show ?thesis using 1(3) by (subst (asm) match_backward_loop.simps) auto
  next
    case False
    let ?len = "min left 8"
    show ?thesis
    proof (cases "take ?len (drop (fst (read_interval m) - ?len) seq) = take ?len (drop (offset m - ?len) target)")
      case True
      then have "match_backward_loop (left - ?len) seq target l (retreat_left m ?len) = m'"
        using False 1(3) by (subst (asm) match_backward_loop.simps) (simp add: Let_def)
      from 1(1) [OF False refl True this] show ?thesis
        by (auto simp: retreat_left_def)
    next
      case neq: False
      obtain b m1 where fc: "backward_chars ?len seq target l m = (b, m1)"
        by (cases "backward_chars ?len seq target l m") auto
      show ?thesis
      proof (cases b)
        case True
        then have "m' = m1"
          using False neq fc 1(3) by (subst (asm) match_backward_loop.simps) (simp add: Let_def)
        then show ?thesis using backward_chars_stop [OF fc] True by simp
      next
        case bF: False
        from fc bF have fc': "backward_chars ?len seq target l m = (False, m1)"
          by simp
        have rec: "match_backward_loop (left - ?len) seq target l m1 = m'"
          using False neq fc' 1(3) by (subst (asm) match_backward_loop.simps) (simp add: Let_def)
        have "offset m1 = offset m - ?len"
          using backward_chars_stop [OF fc'] by simp
        then show ?thesis
          using 1(2) [OF False refl neq fc' [symmetric] refl rec] by auto
      qed
    qed
  qed
qed

lemma u32_le: "u32 x \<le> x"
  by (simp add: u32_def)

lemma mismatch_limit_ceiling:
  assumes "max_mismatches + 1 < 2 ^ 32" "max_mismatches div 2 + old + 1 < 2 ^ 32"
  shows "mismatch_limit max_mismatches old = mismatch_ceiling max_mismatches old"
  using assms by (simp add: mismatch_limit_def mismatch_ceiling_def u32_def)

lemma forward_chars_pos:
  "forward_chars i seq target l (m, off) = (b, m', off') \<Longrightarrow>
   (\<exists>d. off' = off + d \<and> snd (read_interval m') = snd (read_interval m) + d
      \<and> internal_score m' \<le> internal_score m + d)
   \<and> right_maximal m' = right_maximal m \<and> right_full m' = right_full m"
proof (induction i arbitrary: m off)
  case 0
  then show ?case by simp
next
  case (Suc i)
  show ?case
  proof (cases "seq ! snd (read_interval m) \<noteq> target ! off")
    case True
    show ?thesis
    proof (cases "u32 (internal_score m + 1) \<ge> l")
      case stop: True
      then show ?thesis using True Suc.prems by simp
    next
      case False
      let ?m1 = "advance_right (count_mismatch m) 1"
      have "forward_chars i seq target l (?m1, off + 1) = (b, m', off')"
        using False True Suc.prems by simp
      from Suc.IH [OF this] obtain d where d: "off' = off + 1 + d"
          "snd (read_interval m') = snd (read_interval ?m1) + d"
          "internal_score m' \<le> internal_score ?m1 + d"
          "right_maximal m' = right_maximal ?m1" "right_full m' = right_full ?m1"
        by blast
      have "off' = off + Suc d \<and> snd (read_interval m') = snd (read_interval m) + Suc d
          \<and> internal_score m' \<le> internal_score m + Suc d"
        using d u32_le [of "internal_score m + 1"]
        by (simp add: advance_right_def count_mismatch_def)
      moreover have "right_maximal m' = right_maximal m \<and> right_full m' = right_full m"
        using d by (simp add: advance_right_def count_mismatch_def)
      ultimately show ?thesis by blast
    qed
  next
    case False
    let ?m1 = "advance_right m 1"
    have "forward_chars i seq target l (?m1, off + 1) = (b, m', off')"
      using False Suc.prems by simp
    from Suc.IH [OF this] obtain d where d: "off' = off + 1 + d"
        "snd (read_interval m') = snd (read_interval ?m1) + d"
        "internal_score m' \<le> internal_score ?m1 + d"
        "right_maximal m' = right_maximal ?m1" "right_full m' = right_full ?m1"
      by blast
    have "off' = off + Suc d \<and> snd (read_interval m') = snd (read_interval m) + Suc d
        \<and> internal_score m' \<le> internal_score m + Suc d"
      using d by (simp add: advance_right_def)
    moreover have "right_maximal m' = right_maximal m \<and> right_full m' = right_full m"
      using d by (simp add: advance_right_def)
    ultimately show ?thesis by blast
  qed
qed

lemma match_forward_loop_pos:
  "match_forward_loop left seq target l st = (m', off') \<Longrightarrow>
   (\<exists>d. off' = snd st + d \<and> snd (read_interval m') = snd (read_interval (fst st)) + d
      \<and> internal_score m' \<le> internal_score (fst st) + d)
   \<and> right_maximal m' = right_maximal (fst st) \<and> right_full m' = right_full (fst st)"
proof (induction left seq target l st rule: match_forward_loop.induct)
  case (1 left seq target l m off)
  show ?case
  proof (cases "left = 0")
    case True
    then show ?thesis using 1(3) by (subst (asm) match_forward_loop.simps) simp
  next
    case False
    let ?len = "min left 8"
    show ?thesis
    proof (cases "take ?len (drop (snd (read_interval m)) seq) = take ?len (drop off target)")
      case True
      let ?m1 = "advance_right m ?len"
      have "match_forward_loop (left - ?len) seq target l (?m1, off + ?len) = (m', off')"
        using True False 1(3) by (subst (asm) match_forward_loop.simps) (simp add: Let_def)
      from 1(1) [OF False refl True this] obtain d where d: "off' = off + ?len + d"
          "snd (read_interval m') = snd (read_interval ?m1) + d"
          "internal_score m' \<le> internal_score ?m1 + d"
          "right_maximal m' = right_maximal ?m1" "right_full m' = right_full ?m1"
        by auto
      have "off' = off + (?len + d) \<and> snd (read_interval m') = snd (read_interval m) + (?len + d)
          \<and> internal_score m' \<le> internal_score m + (?len + d)"
        using d by (simp add: advance_right_def)
      moreover have "right_maximal m' = right_maximal m \<and> right_full m' = right_full m"
        using d by (simp add: advance_right_def)
      ultimately show ?thesis by auto
    next
      case neq: False
      obtain b m1 off1 where fc: "forward_chars ?len seq target l (m, off) = (b, m1, off1)"
        by (cases "forward_chars ?len seq target l (m, off)") auto
      from forward_chars_pos [OF fc] obtain d1 where d1: "off1 = off + d1"
          "snd (read_interval m1) = snd (read_interval m) + d1"
          "internal_score m1 \<le> internal_score m + d1"
          "right_maximal m1 = right_maximal m" "right_full m1 = right_full m"
        by blast
      show ?thesis
      proof (cases b)
        case True
        then have "(m', off') = (m1, off1)"
          using False neq fc 1(3) by (subst (asm) match_forward_loop.simps) (simp add: Let_def)
        then show ?thesis using d1 by auto
      next
        case bF: False
        from fc bF have fc': "forward_chars ?len seq target l (m, off) = (False, m1, off1)"
          by simp
        have rec: "match_forward_loop (left - ?len) seq target l (m1, off1) = (m', off')"
          using False neq fc' 1(3) by (subst (asm) match_forward_loop.simps) (simp add: Let_def)
        from 1(2) [OF False refl neq fc' [symmetric] refl rec] obtain d where d: "off' = off1 + d"
            "snd (read_interval m') = snd (read_interval m1) + d"
            "internal_score m' \<le> internal_score m1 + d"
            "right_maximal m' = right_maximal m1" "right_full m' = right_full m1"
          by auto
        have "off' = off + (d1 + d) \<and> snd (read_interval m') = snd (read_interval m) + (d1 + d)
            \<and> internal_score m' \<le> internal_score m + (d1 + d)"
          using d d1 by simp
        moreover have "right_maximal m' = right_maximal m \<and> right_full m' = right_full m"
          using d d1 by simp
        ultimately show ?thesis by auto
      qed
    qed
  qed
qed

lemma backward_chars_pos:
  "backward_chars i seq target l m = (b, m') \<Longrightarrow> i \<le> fst (read_interval m) \<Longrightarrow> i \<le> offset m \<Longrightarrow>
   (\<exists>d\<le>i. fst (read_interval m') = fst (read_interval m) - d \<and> offset m' = offset m - d
       \<and> internal_score m' \<le> internal_score m + d)
   \<and> left_maximal m' = left_maximal m \<and> left_full m' = left_full m"
proof (induction i arbitrary: m)
  case 0
  then show ?case by simp
next
  case (Suc i)
  show ?case
  proof (cases "seq ! (fst (read_interval m) - 1) \<noteq> target ! (offset m - 1)")
    case True
    show ?thesis
    proof (cases "u32 (internal_score m + 1) \<ge> l")
      case stop: True
      then have "m' = m" using True Suc.prems by simp
      then show ?thesis by auto
    next
      case False
      let ?m1 = "retreat_left (count_mismatch m) 1"
      have "backward_chars i seq target l ?m1 = (b, m')"
        using False True Suc.prems by simp
      moreover have "i \<le> fst (read_interval ?m1)" "i \<le> offset ?m1"
        using Suc.prems by (simp_all add: retreat_left_def count_mismatch_def)
      ultimately obtain d where d: "d \<le> i" "fst (read_interval m') = fst (read_interval ?m1) - d"
          "offset m' = offset ?m1 - d" "internal_score m' \<le> internal_score ?m1 + d"
          "left_maximal m' = left_maximal ?m1" "left_full m' = left_full ?m1"
        using Suc.IH [of ?m1] by blast
      have "Suc d \<le> Suc i \<and> fst (read_interval m') = fst (read_interval m) - Suc d
          \<and> offset m' = offset m - Suc d \<and> internal_score m' \<le> internal_score m + Suc d"
        using d u32_le [of "internal_score m + 1"]
        by (simp add: retreat_left_def count_mismatch_def)
      moreover have "left_maximal m' = left_maximal m \<and> left_full m' = left_full m"
        using d by (simp add: retreat_left_def count_mismatch_def)
      ultimately show ?thesis by blast
    qed
  next
    case False
    let ?m1 = "retreat_left m 1"
    have "backward_chars i seq target l ?m1 = (b, m')"
      using False Suc.prems by simp
    moreover have "i \<le> fst (read_interval ?m1)" "i \<le> offset ?m1"
      using Suc.prems by (simp_all add: retreat_left_def)
    ultimately obtain d where d: "d \<le> i" "fst (read_interval m') = fst (read_interval ?m1) - d"
        "offset m' = offset ?m1 - d" "internal_score m' \<le> internal_score ?m1 + d"
        "left_maximal m' = left_maximal ?m1" "left_full m' = left_full ?m1"
      using Suc.IH [of ?m1] by blast
    have "Suc d \<le> Suc i \<and> fst (read_interval m') = fst (read_interval m) - Suc d
        \<and> offset m' = offset m - Suc d \<and> internal_score m' \<le> internal_score m + Suc d"
      using d by (simp add: retreat_left_def)
    moreover have "left_maximal m' = left_maximal m \<and> left_full m' = left_full m"
      using d by (simp add: retreat_left_def)
    ultimately show ?thesis by blast
  qed
qed

lemma match_backward_loop_pos:
  "match_backward_loop left seq target l m = m' \<Longrightarrow>
   left \<le> fst (read_interval m) \<Longrightarrow> left \<le> offset m \<Longrightarrow>
   (\<exists>d\<le>left. fst (read_interval m') = fst (read_interval m) - d \<and> offset m' = offset m - d
       \<and> internal_score m' \<le> internal_score m + d)
   \<and> left_maximal m' = left_maximal m \<and> left_full m' = left_full m"
proof (induction left seq target l m arbitrary: m' rule: match_backward_loop.induct)
  case (1 left seq target l m)
  show ?case
  proof (cases "left = 0")
    case True
    then have "m' = m" using "1.prems"(1) by (subst (asm) match_backward_loop.simps) simp
    then show ?thesis by auto
  next
    case False
    define len where "len = min left 8"
    have len_le: "len \<le> left" "len \<le> fst (read_interval m)" "len \<le> offset m"
      using "1.prems"(2,3) by (simp_all add: len_def)
    have unfold: "match_backward_loop left seq target l m =
        (if take len (drop (fst (read_interval m) - len) seq) = take len (drop (offset m - len) target)
         then match_backward_loop (left - len) seq target l (retreat_left m len)
         else (case backward_chars len seq target l m of
                 (True, m1) \<Rightarrow> m1
               | (False, m1) \<Rightarrow> match_backward_loop (left - len) seq target l m1))"
      unfolding len_def using False by (subst match_backward_loop.simps) (simp add: Let_def)
    show ?thesis
    proof (cases "take len (drop (fst (read_interval m) - len) seq) = take len (drop (offset m - len) target)")
      case True
      let ?m1 = "retreat_left m len"
      have rec: "match_backward_loop (left - len) seq target l ?m1 = m'"
        using True "1.prems"(1) unfold by simp
      have fst1: "fst (read_interval ?m1) = fst (read_interval m) - len"
        and off1: "offset ?m1 = offset m - len"
        and int1: "internal_score ?m1 = internal_score m"
        and flags1: "left_maximal ?m1 = left_maximal m" "left_full ?m1 = left_full m"
        by (simp_all add: retreat_left_def)
      have pre: "left - len \<le> fst (read_interval ?m1)" "left - len \<le> offset ?m1"
        using "1.prems"(2,3) fst1 off1 by (simp_all add: diff_le_mono)
      from "1.IH"(1) [OF False len_def True rec pre] obtain d where d: "d \<le> left - len"
          "fst (read_interval m') = fst (read_interval ?m1) - d" "offset m' = offset ?m1 - d"
          "internal_score m' \<le> internal_score ?m1 + d"
          "left_maximal m' = left_maximal ?m1" "left_full m' = left_full ?m1"
        by blast
      have "len + d \<le> left" using d(1) len_le(1) by linarith
      moreover have "fst (read_interval m') = fst (read_interval m) - (len + d)"
        using d(2) fst1 by linarith
      moreover have "offset m' = offset m - (len + d)"
        using d(3) off1 by linarith
      moreover have "internal_score m' \<le> internal_score m + (len + d)"
        using d(4) int1 by linarith
      moreover have "left_maximal m' = left_maximal m \<and> left_full m' = left_full m"
        using d(5,6) flags1 by simp
      ultimately show ?thesis by blast
    next
      case neq: False
      obtain b m1 where fc: "backward_chars len seq target l m = (b, m1)"
        by (cases "backward_chars len seq target l m") auto
      from backward_chars_pos [OF fc len_le(2,3)] obtain d1 where d1: "d1 \<le> len"
          "fst (read_interval m1) = fst (read_interval m) - d1" "offset m1 = offset m - d1"
          "internal_score m1 \<le> internal_score m + d1"
          "left_maximal m1 = left_maximal m" "left_full m1 = left_full m"
        by blast
      show ?thesis
      proof (cases b)
        case True
        then have "m' = m1"
          using neq fc "1.prems"(1) unfold by simp
        moreover have "d1 \<le> left" using d1(1) len_le(1) by linarith
        ultimately show ?thesis using d1(2-6) by blast
      next
        case bF: False
        from fc bF have fc': "backward_chars len seq target l m = (False, m1)"
          by simp
        have rec: "match_backward_loop (left - len) seq target l m1 = m'"
          using neq fc' "1.prems"(1) unfold by simp
        have "offset m1 = offset m - len"
          using backward_chars_through [OF fc'] .
        then have d1_len: "d1 = len" using d1(1,3) len_le(3) by linarith
        have pre: "left - len \<le> fst (read_interval m1)" "left - len \<le> offset m1"
          using d1(2,3) d1_len "1.prems"(2,3) by (simp_all add: diff_le_mono)
        from "1.IH"(2) [OF False len_def neq fc' [symmetric] refl rec pre] obtain d where d: "d \<le> left - len"
            "fst (read_interval m') = fst (read_interval m1) - d" "offset m' = offset m1 - d"
            "internal_score m' \<le> internal_score m1 + d"
            "left_maximal m' = left_maximal m1" "left_full m' = left_full m1"
          by blast
        have "len + d \<le> left" using d(1) len_le(1) by linarith
        moreover have "fst (read_interval m') = fst (read_interval m) - (len + d)"
          using d(2) d1(2) d1_len by linarith
        moreover have "offset m' = offset m - (len + d)"
          using d(3) d1(3) d1_len by linarith
        moreover have "internal_score m' \<le> internal_score m + (len + d)"
          using d(4) d1(4) d1_len by linarith
        moreover have "left_maximal m' = left_maximal m \<and> left_full m' = left_full m"
          using d(5,6) d1(5,6) by simp
        ultimately show ?thesis by blast
      qed
    qed
  qed
qed

lemma mismatch_limit_le_ceiling: "mismatch_limit b old \<le> mismatch_ceiling b old"
  using u32_le [of "b + 1"] u32_le [of "b div 2 + old + 1"]
  by (simp add: mismatch_limit_def mismatch_ceiling_def) linarith

lemma half_below_limit:
  "b div 2 + old + 1 < 2 ^ 32 \<Longrightarrow> old + b div 2 < mismatch_limit b old"
  by (simp add: mismatch_limit_def u32_def)

lemma extend_right_result:
  assumes "extend_right g al sequence b current s = Some (Some nx)"
  shows "\<exists>n1 off. match_forward (child_of current (offset current) s) sequence
             (get_sequence_view g (node_to_handle (node (forward s))))
             (mismatch_limit b (old_score current)) = Some (n1, off)
           \<and> off \<noteq> 0
           \<and> read_interval nx = read_interval n1 \<and> internal_score nx = internal_score n1
           \<and> (right_full nx \<longleftrightarrow> (length sequence \<le> snd (read_interval n1) \<or> right_full n1))
           \<and> (right_maximal nx \<longleftrightarrow>
                 (length sequence \<le> snd (read_interval n1)
                  \<or> off < get_length g (node_to_handle (node (forward s)))
                  \<or> right_maximal n1))"
  using assms
  by (auto simp: extend_right_def Let_def set_score_def split: option.splits if_splits)

lemma match_forward_facts:
  assumes "match_forward c sequence target l = Some (n1, off)"
  shows "snd (read_interval c) \<le> length sequence"
    and "snd (read_interval n1) = snd (read_interval c) + off"
    and "internal_score n1 \<le> internal_score c + off"
    and "right_maximal n1 = right_maximal c" and "right_full n1 = right_full c"
    and "off = min (length sequence - snd (read_interval c)) (length target)
         \<or> l \<le> internal_score n1 + 1"
proof -
  let ?left = "min (length sequence - snd (read_interval c)) (length target)"
  show le: "snd (read_interval c) \<le> length sequence"
    using assms by (auto simp: match_forward_def split: if_splits)
  have loop: "match_forward_loop ?left sequence target l (c, 0) = (n1, off)"
    using assms by (auto simp: match_forward_def split: if_splits)
  from match_forward_loop_pos [OF loop]
  show "snd (read_interval n1) = snd (read_interval c) + off"
    and "internal_score n1 \<le> internal_score c + off"
    and "right_maximal n1 = right_maximal c" and "right_full n1 = right_full c"
    by auto
  from match_forward_loop_stop [OF loop] u32_le [of "internal_score n1 + 1"]
  show "off = ?left \<or> l \<le> internal_score n1 + 1"
    by auto
qed

lemma extend_right_cut_short:
  assumes half: "b div 2 + old_score current + 1 < 2 ^ 32"
    and er: "extend_right g al sequence b current s = Some (Some nx)"
    and short: "snd (read_interval nx) < length sequence"
      "snd (read_interval nx) < snd (read_interval current)
         + get_length g (node_to_handle (node (forward s)))"
  shows "old_score current + b div 2 \<le> internal_score nx"
proof -
  let ?c = "child_of current (offset current) s"
  let ?t = "get_sequence_view g (node_to_handle (node (forward s)))"
  let ?l = "mismatch_limit b (old_score current)"
  from extend_right_result [OF er] obtain n1 off
    where mf: "match_forward ?c sequence ?t ?l = Some (n1, off)"
      and ri: "read_interval nx = read_interval n1" and sc: "internal_score nx = internal_score n1"
    by blast
  note f = match_forward_facts [OF mf]
  have c_ri: "read_interval ?c = read_interval current" by (simp add: child_of_def)
  have "off < min (length sequence - snd (read_interval ?c)) (length ?t)"
    using short f(2) ri c_ri by (simp add: get_length_def)
  with f(6) have "?l \<le> internal_score n1 + 1" by auto
  with half_below_limit [OF half] sc show ?thesis by linarith
qed

lemma extend_right_no_child:
  assumes half: "b div 2 + old_score current + 1 < 2 ^ 32"
    and er: "extend_right g al sequence b current s = Some None"
    and room: "snd (read_interval current) < length sequence"
      "0 < get_length g (node_to_handle (node (forward s)))"
  shows "old_score current + b div 2 \<le> internal_score current"
proof -
  let ?c = "child_of current (offset current) s"
  let ?t = "get_sequence_view g (node_to_handle (node (forward s)))"
  let ?l = "mismatch_limit b (old_score current)"
  obtain n1 where mf: "match_forward ?c sequence ?t ?l = Some (n1, 0)"
    using er by (auto simp: extend_right_def Let_def split: option.splits if_splits)
  note f = match_forward_facts [OF mf]
  have c_ri: "read_interval ?c = read_interval current"
    and c_sc: "internal_score ?c = internal_score current" by (simp_all add: child_of_def)
  have "0 < min (length sequence - snd (read_interval ?c)) (length ?t)"
    using room c_ri by (simp add: get_length_def)
  with f(6) have "?l \<le> internal_score n1 + 1" by auto
  moreover have "internal_score n1 \<le> internal_score current" using f(3) c_sc by simp
  ultimately show ?thesis using half_below_limit [OF half] by linarith
qed

lemma extend_right_maximal_short:
  assumes er: "extend_right g al sequence b current s = Some (Some nx)"
    and flags: "\<not> right_maximal current" "right_maximal nx" "\<not> right_full nx"
  shows "snd (read_interval nx) < length sequence
       \<and> snd (read_interval nx) < snd (read_interval current)
             + get_length g (node_to_handle (node (forward s)))"
proof -
  let ?c = "child_of current (offset current) s"
  let ?t = "get_sequence_view g (node_to_handle (node (forward s)))"
  let ?l = "mismatch_limit b (old_score current)"
  from extend_right_result [OF er] obtain n1 off
    where mf: "match_forward ?c sequence ?t ?l = Some (n1, off)"
      and ri: "read_interval nx = read_interval n1"
      and rf: "right_full nx \<longleftrightarrow> (length sequence \<le> snd (read_interval n1) \<or> right_full n1)"
      and rm: "right_maximal nx \<longleftrightarrow>
                 (length sequence \<le> snd (read_interval n1)
                  \<or> off < get_length g (node_to_handle (node (forward s)))
                  \<or> right_maximal n1)"
    by blast
  note f = match_forward_facts [OF mf]
  have "right_maximal n1 = right_maximal current"
    using f(4) by (simp add: child_of_def)
  then have "off < get_length g (node_to_handle (node (forward s)))"
    and "snd (read_interval n1) < length sequence"
    using rm rf flags by auto
  then show ?thesis using f(2) ri by (simp add: child_of_def)
qed

lemma extend_left_result:
  assumes "extend_left g al sequence b current s = Some (Some nx)"
  shows "\<exists>n1. match_backward
             (child_of current (get_length g (node_to_handle (node_reverse (node (backward s))))) s)
             sequence (get_sequence_view g (node_to_handle (node_reverse (node (backward s)))))
             (mismatch_limit b (old_score current)) = Some n1
           \<and> offset n1 < get_length g (node_to_handle (node_reverse (node (backward s))))
           \<and> read_interval nx = read_interval n1 \<and> offset nx = offset n1
           \<and> internal_score nx = internal_score n1
           \<and> (left_full nx \<longleftrightarrow> (fst (read_interval n1) = 0 \<or> left_full n1))
           \<and> (left_maximal nx \<longleftrightarrow>
                 (fst (read_interval n1) = 0 \<or> 0 < offset n1 \<or> left_maximal n1))"
  using assms
  by (auto simp: extend_left_def Let_def set_score_def split: option.splits if_splits)

lemma match_backward_facts:
  assumes "match_backward c sequence target l = Some n1"
  shows "\<exists>d\<le>min (fst (read_interval c)) (offset c).
           fst (read_interval n1) = fst (read_interval c) - d \<and> offset n1 = offset c - d
           \<and> internal_score n1 \<le> internal_score c + d"
    and "left_maximal n1 = left_maximal c" and "left_full n1 = left_full c"
    and "offset n1 = offset c - min (fst (read_interval c)) (offset c)
         \<or> l \<le> internal_score n1 + 1"
proof -
  let ?left = "min (fst (read_interval c)) (offset c)"
  have loop: "match_backward_loop ?left sequence target l c = n1"
    using assms by (auto simp: match_backward_def split: if_splits)
  have "?left \<le> fst (read_interval c)" "?left \<le> offset c" by simp_all
  from match_backward_loop_pos [OF loop this]
  show "\<exists>d\<le>?left. fst (read_interval n1) = fst (read_interval c) - d \<and> offset n1 = offset c - d
           \<and> internal_score n1 \<le> internal_score c + d"
    and "left_maximal n1 = left_maximal c" and "left_full n1 = left_full c"
    by blast+
  from match_backward_loop_stop [OF loop] u32_le [of "internal_score n1 + 1"]
  show "offset n1 = offset c - ?left \<or> l \<le> internal_score n1 + 1"
    by auto
qed

lemma extend_left_cut_short:
  assumes half: "b div 2 + old_score current + 1 < 2 ^ 32"
    and el: "extend_left g al sequence b current s = Some (Some nx)"
    and short: "0 < fst (read_interval nx)" "0 < offset nx"
  shows "old_score current + b div 2 \<le> internal_score nx"
proof -
  define k where "k = get_length g (node_to_handle (node_reverse (node (backward s))))"
  let ?c = "child_of current k s"
  let ?t = "get_sequence_view g (node_to_handle (node_reverse (node (backward s))))"
  let ?l = "mismatch_limit b (old_score current)"
  from extend_left_result [OF el] obtain n1
    where mb: "match_backward ?c sequence ?t ?l = Some n1"
      and ri: "read_interval nx = read_interval n1" and off: "offset nx = offset n1"
      and sc: "internal_score nx = internal_score n1"
    unfolding k_def by blast
  have c_ri: "fst (read_interval ?c) = fst (read_interval current)" and c_off: "offset ?c = k"
    by (simp_all add: child_of_def)
  from match_backward_facts(1) [OF mb] obtain d
    where d: "d \<le> min (fst (read_interval current)) k"
      "fst (read_interval n1) = fst (read_interval current) - d" "offset n1 = k - d"
    unfolding c_ri c_off by blast
  have "offset n1 \<noteq> k - min (fst (read_interval current)) k"
  proof
    assume eq: "offset n1 = k - min (fst (read_interval current)) k"
    then have "d = min (fst (read_interval current)) k" using d(1,3) by linarith
    then show False using d(2,3) short ri off by (cases "fst (read_interval current) \<le> k") auto
  qed
  with match_backward_facts(4) [OF mb] have "?l \<le> internal_score n1 + 1"
    unfolding c_ri c_off by blast
  with half_below_limit [OF half] sc show ?thesis by linarith
qed

lemma extend_left_no_child:
  assumes half: "b div 2 + old_score current + 1 < 2 ^ 32"
    and el: "extend_left g al sequence b current s = Some None"
    and room: "0 < fst (read_interval current)"
      "0 < get_length g (node_to_handle (node_reverse (node (backward s))))"
  shows "old_score current + b div 2 \<le> internal_score current"
proof -
  define k where "k = get_length g (node_to_handle (node_reverse (node (backward s))))"
  let ?c = "child_of current k s"
  let ?t = "get_sequence_view g (node_to_handle (node_reverse (node (backward s))))"
  let ?l = "mismatch_limit b (old_score current)"
  obtain n1 where mb: "match_backward ?c sequence ?t ?l = Some n1" and ge: "k \<le> offset n1"
    using el unfolding k_def
    by (auto simp: extend_left_def Let_def split: option.splits if_splits)
  have c_ri: "fst (read_interval ?c) = fst (read_interval current)" and c_off: "offset ?c = k"
    and c_sc: "internal_score ?c = internal_score current"
    by (simp_all add: child_of_def)
  from match_backward_facts(1) [OF mb] obtain d
    where d: "offset n1 = k - d" "internal_score n1 \<le> internal_score current + d"
    unfolding c_ri c_off c_sc by blast
  have k_pos: "0 < k" using room(2) by (simp add: k_def)
  then have "d = 0" using d(1) ge by linarith
  then have le: "internal_score n1 \<le> internal_score current" using d(2) by simp
  have "offset n1 \<noteq> k - min (fst (read_interval current)) k"
    using ge k_pos room(1) by (cases "fst (read_interval current) \<le> k") auto
  with match_backward_facts(4) [OF mb] have "?l \<le> internal_score n1 + 1"
    unfolding c_ri c_off by blast
  with half_below_limit [OF half] le show ?thesis by linarith
qed

lemma extend_left_maximal_short:
  assumes el: "extend_left g al sequence b current s = Some (Some nx)"
    and flags: "\<not> left_maximal current" "left_maximal nx" "\<not> left_full nx"
  shows "0 < fst (read_interval nx) \<and> 0 < offset nx"
proof -
  from extend_left_result [OF el] obtain n1
    where mb: "match_backward
             (child_of current (get_length g (node_to_handle (node_reverse (node (backward s))))) s)
             sequence (get_sequence_view g (node_to_handle (node_reverse (node (backward s)))))
             (mismatch_limit b (old_score current)) = Some n1"
      and ri: "read_interval nx = read_interval n1" and off: "offset nx = offset n1"
      and lf: "left_full nx \<longleftrightarrow> (fst (read_interval n1) = 0 \<or> left_full n1)"
      and lm: "left_maximal nx \<longleftrightarrow>
                 (fst (read_interval n1) = 0 \<or> 0 < offset n1 \<or> left_maximal n1)"
    by blast
  have "left_maximal n1 = left_maximal current"
    using match_backward_facts(2) [OF mb] by (simp add: child_of_def)
  then show ?thesis using lm lf flags ri off by auto
qed

text \<open>
  Claim C5. In \<^verbatim>\<open>extend\<close>, a right extension and a left extension of a popped item admit
  a new mismatch only while the count stays strictly below the ceiling
  \<open>max (budget + 1) (budget div 2 + old_score + 1)\<close>: a child either has the mismatch count
  of its parent or a count below the ceiling. Conversely the callbacks stop at nothing
  but the ceiling. A right child that is made right-maximal without reaching the end of
  the read (that ends before the end of the read and of its node) has at least
  \<open>old_score + budget div 2\<close> mismatches, and a successor with bases to compare yields no
  child only when the parent has that many; the same holds on the left. So half the
  budget can always be spent past the last maximal boundary. The second half needs the
  sum \<open>budget div 2 + old_score + 1\<close> to be a \<^verbatim>\<open>uint32_t\<close>, as the source's cast assumes.
\<close>

theorem mismatch_ceiling_respected:
  "(\<forall>s nx. extend_right g al sequence max_mismatches current s = Some (Some nx) \<longrightarrow>
      internal_score nx = internal_score current
      \<or> internal_score nx < mismatch_ceiling max_mismatches (old_score current))
   \<and> (\<forall>s nx. extend_left g al sequence max_mismatches current s = Some (Some nx) \<longrightarrow>
      internal_score nx = internal_score current
      \<or> internal_score nx < mismatch_ceiling max_mismatches (old_score current))
   \<and> (max_mismatches div 2 + old_score current + 1 < 2 ^ 32 \<longrightarrow>
      (\<forall>s nx. extend_right g al sequence max_mismatches current s = Some (Some nx)
          \<and> ((\<not> right_maximal current \<and> right_maximal nx \<and> \<not> right_full nx)
               \<or> (snd (read_interval nx) < length sequence
                   \<and> snd (read_interval nx) < snd (read_interval current)
                         + get_length g (node_to_handle (node (forward s))))) \<longrightarrow>
          old_score current + max_mismatches div 2 \<le> internal_score nx)
      \<and> (\<forall>s. extend_right g al sequence max_mismatches current s = Some None
          \<and> snd (read_interval current) < length sequence
          \<and> 0 < get_length g (node_to_handle (node (forward s))) \<longrightarrow>
          old_score current + max_mismatches div 2 \<le> internal_score current)
      \<and> (\<forall>s nx. extend_left g al sequence max_mismatches current s = Some (Some nx)
          \<and> ((\<not> left_maximal current \<and> left_maximal nx \<and> \<not> left_full nx)
               \<or> (0 < fst (read_interval nx) \<and> 0 < offset nx)) \<longrightarrow>
          old_score current + max_mismatches div 2 \<le> internal_score nx)
      \<and> (\<forall>s. extend_left g al sequence max_mismatches current s = Some None
          \<and> 0 < fst (read_interval current)
          \<and> 0 < get_length g (node_to_handle (node_reverse (node (backward s)))) \<longrightarrow>
          old_score current + max_mismatches div 2 \<le> internal_score current))"
proof -
  let ?l = "mismatch_limit max_mismatches (old_score current)"
  let ?half = "max_mismatches div 2 + old_score current + 1 < 2 ^ 32"
  have right: "internal_score nx = internal_score current
      \<or> internal_score nx < mismatch_ceiling max_mismatches (old_score current)"
    if "extend_right g al sequence max_mismatches current s = Some (Some nx)" for s nx
    using extend_right_below [OF that] mismatch_limit_le_ceiling [of max_mismatches "old_score current"]
    by (auto simp: below_limit_def)
  have left: "internal_score nx = internal_score current
      \<or> internal_score nx < mismatch_ceiling max_mismatches (old_score current)"
    if "extend_left g al sequence max_mismatches current s = Some (Some nx)" for s nx
    using extend_left_below [OF that] mismatch_limit_le_ceiling [of max_mismatches "old_score current"]
    by (auto simp: below_limit_def)
  have r_short: "old_score current + max_mismatches div 2 \<le> internal_score nx"
    if ?half and er: "extend_right g al sequence max_mismatches current s = Some (Some nx)"
      and c: "(\<not> right_maximal current \<and> right_maximal nx \<and> \<not> right_full nx)
               \<or> (snd (read_interval nx) < length sequence
                   \<and> snd (read_interval nx) < snd (read_interval current)
                         + get_length g (node_to_handle (node (forward s))))"
    for s nx
  proof -
    have "snd (read_interval nx) < length sequence
        \<and> snd (read_interval nx) < snd (read_interval current)
              + get_length g (node_to_handle (node (forward s)))"
      using c extend_right_maximal_short [OF er] by blast
    then show ?thesis using extend_right_cut_short [OF \<open>?half\<close> er] by blast
  qed
  have r_none: "old_score current + max_mismatches div 2 \<le> internal_score current"
    if ?half and "extend_right g al sequence max_mismatches current s = Some None"
      and "snd (read_interval current) < length sequence"
      and "0 < get_length g (node_to_handle (node (forward s)))"
    for s
    using that by (rule extend_right_no_child)
  have l_short: "old_score current + max_mismatches div 2 \<le> internal_score nx"
    if ?half and el: "extend_left g al sequence max_mismatches current s = Some (Some nx)"
      and c: "(\<not> left_maximal current \<and> left_maximal nx \<and> \<not> left_full nx)
               \<or> (0 < fst (read_interval nx) \<and> 0 < offset nx)"
    for s nx
  proof -
    have "0 < fst (read_interval nx) \<and> 0 < offset nx"
      using c extend_left_maximal_short [OF el] by blast
    then show ?thesis using extend_left_cut_short [OF \<open>?half\<close> el] by blast
  qed
  have l_none: "old_score current + max_mismatches div 2 \<le> internal_score current"
    if ?half and "extend_left g al sequence max_mismatches current s = Some None"
      and "0 < fst (read_interval current)"
      and "0 < get_length g (node_to_handle (node_reverse (node (backward s))))"
    for s
    using that by (rule extend_left_no_child)
  show ?thesis
    using right left r_short r_none l_short l_none by blast
qed

lemmas toy_defs = toy_graph_def toy_sequence_def toy_forward_def toy_item_def toy_item_next_def
  toy_left_item_def toy_left_next_def
  toy_state_def toy_bd_state_def toy_aligner_def node_is_reverse_def node_id_def node_to_handle_def
  node_reverse_def complement_def

lemma toy_extend_right:
  "map_option (map_option (\<lambda>nx. (read_interval nx, internal_score nx, right_maximal nx, right_full nx)))
     (extend_right toy_graph toy_aligner ''TTCCCA'' 2 toy_item toy_item_next)
   = Some (Some ((0, 3), 3, True, False))"
  by (simp add: extend_right_def toy_defs child_of_def mismatch_limit_def u32_def match_forward_def
      match_forward_loop.simps advance_right_def count_mismatch_def Let_def get_path_back_def
      get_length_def set_score_def s32_def)

lemma toy_extend_left:
  "map_option (map_option (\<lambda>nx. (read_interval nx, offset nx, internal_score nx, left_maximal nx, left_full nx)))
     (extend_left toy_graph toy_aligner ''ACCGG'' 2 toy_left_item toy_left_next)
   = Some (Some ((2, 5), 2, 3, True, False))"
  by (simp add: extend_left_def toy_defs child_of_def mismatch_limit_def u32_def match_backward_def
      match_backward_loop.simps retreat_left_def count_mismatch_def Let_def get_path_front_def
      get_length_def set_score_def s32_def)

theorem mismatch_ceiling_respected_witness:
  "(\<exists>nx. extend_right toy_graph toy_aligner ''TTCCCA'' 2 toy_item toy_item_next = Some (Some nx)
         \<and> internal_score toy_item = 2 \<and> old_score toy_item = 2
         \<and> \<not> right_maximal toy_item \<and> right_maximal nx \<and> \<not> right_full nx
         \<and> internal_score nx = 3
         \<and> internal_score nx < mismatch_ceiling 2 (old_score toy_item)
         \<and> old_score toy_item + 2 div 2 \<le> internal_score nx)
   \<and> (\<exists>nx. extend_left toy_graph toy_aligner ''ACCGG'' 2 toy_left_item toy_left_next = Some (Some nx)
         \<and> \<not> left_maximal toy_left_item \<and> left_maximal nx \<and> \<not> left_full nx
         \<and> internal_score nx = 3
         \<and> internal_score nx < mismatch_ceiling 2 (old_score toy_left_item)
         \<and> old_score toy_left_item + 2 div 2 \<le> internal_score nx)"
proof -
  have half: "(2::nat) div 2 + old_score toy_item + 1 < 2 ^ 32" by (simp add: toy_item_def)
  have half': "(2::nat) div 2 + old_score toy_left_item + 1 < 2 ^ 32" by (simp add: toy_left_item_def)
  note inst = mismatch_ceiling_respected [of toy_graph toy_aligner "''TTCCCA''" 2 toy_item]
  note inst' = mismatch_ceiling_respected [of toy_graph toy_aligner "''ACCGG''" 2 toy_left_item]
  obtain nx where nx: "extend_right toy_graph toy_aligner ''TTCCCA'' 2 toy_item toy_item_next = Some (Some nx)"
    and nx_f: "internal_score nx = 3" "right_maximal nx" "\<not> right_full nx"
    using toy_extend_right by (auto simp: map_option_case split: option.splits)
  have it: "internal_score toy_item = 2" "old_score toy_item = 2" "\<not> right_maximal toy_item"
    by (simp_all add: toy_item_def)
  have neq: "internal_score nx \<noteq> internal_score toy_item"
    using nx_f it by simp
  have p1: "internal_score nx < mismatch_ceiling 2 (old_score toy_item)"
    using inst nx neq by blast
  have p2: "old_score toy_item + 2 div 2 \<le> internal_score nx"
    using inst half nx nx_f it(3) by blast
  obtain lx where lx: "extend_left toy_graph toy_aligner ''ACCGG'' 2 toy_left_item toy_left_next = Some (Some lx)"
    and lx_f: "internal_score lx = 3" "left_maximal lx" "\<not> left_full lx"
    using toy_extend_left by (auto simp: map_option_case split: option.splits)
  have lt: "internal_score toy_left_item = 2" "\<not> left_maximal toy_left_item"
    by (simp_all add: toy_left_item_def)
  have neq': "internal_score lx \<noteq> internal_score toy_left_item"
    using lx_f lt by simp
  have q1: "internal_score lx < mismatch_ceiling 2 (old_score toy_left_item)"
    using inst' lx neq' by blast
  have q2: "old_score toy_left_item + 2 div 2 \<le> internal_score lx"
    using inst' half' lx lx_f lt(2) by blast
  show ?thesis using nx nx_f it p1 p2 lx lx_f lt q1 q2 by blast
qed

subsection \<open>The conversion of a gapless extension to a WFAAlignment\<close>

text \<open>
  Claim C4, at a concrete extension. For the read \<^verbatim>\<open>GGAGTAC\<close> with one mismatch at
  offset 2, the conversion produces a match of 2, a mismatch of 1 and a trailing match of
  5: the cursor is left on the mismatch instead of after it, so the edit lengths add up
  to 8 while the alignment's length is 7.
\<close>

theorem alignment_of_extension_edit_sum:
  "edits (alignment_of_extension toy_extension) = [(Match, 2), (Mismatch, 1), (Match, 5)]
   \<and> edit_length_sum (edits (alignment_of_extension toy_extension)) = 8
   \<and> length_a (alignment_of_extension toy_extension) = 7"
  by (simp add: alignment_of_extension_def toy_extension_def mismatch_edit_step_def u32_def
      length_ext_def edit_length_sum_def Let_def)

subsection \<open>Trimming mismatches is idempotent\<close>

lemma trim_scan_pick: "trim_scan al e ms cur best = pick_best (runs al e ms cur) best"
  by (induction ms arbitrary: cur best) (simp_all add: Let_def)

lemma pick_best_append: "pick_best (xs @ ys) b = pick_best ys (pick_best xs b)"
  by (induction xs arbitrary: b) simp_all

lemma pick_best_mem: "pick_best cs b = b \<or> pick_best cs b \<in> set cs"
proof (induction cs arbitrary: b)
  case Nil
  then show ?case by simp
next
  case (Cons c cs)
  from Cons [of "if better_interval c b then c else b"] show ?case
    by (auto split: if_splits)
qed

lemma pick_best_ge: "snd b \<le> snd (pick_best cs b)"
proof (induction cs arbitrary: b)
  case Nil
  then show ?case by simp
next
  case (Cons c cs)
  have "snd b \<le> snd (if better_interval c b then c else b)"
    by (auto simp: better_interval_def)
  also have "\<dots> \<le> snd (pick_best cs (if better_interval c b then c else b))"
    by (rule Cons)
  finally show ?case by simp
qed

lemma pick_best_max: "c \<in> set cs \<Longrightarrow> snd c \<le> snd (pick_best cs b)"
proof (induction cs arbitrary: b)
  case Nil
  then show ?case by simp
next
  case (Cons d cs)
  show ?case
  proof (cases "c = d")
    case True
    have "snd d \<le> snd (if better_interval d b then d else b)"
      by (auto simp: better_interval_def)
    also have "\<dots> \<le> snd (pick_best cs (if better_interval d b then d else b))"
      by (rule pick_best_ge)
    finally show ?thesis using True by simp
  next
    case False
    then have "c \<in> set cs" using Cons.prems by simp
    from Cons.IH [OF this] show ?thesis by simp
  qed
qed

lemma runs_length: "length (runs al e ms cur) = length ms"
  by (induction ms arbitrary: cur) (simp_all add: Let_def)

lemma following_run_cong:
  "snd (read_interval e) = snd (read_interval e') \<Longrightarrow> right_full e = right_full e' \<Longrightarrow>
   following_run al e rest cur = following_run al e' rest cur"
  by (cases rest) (simp_all add: following_run_def)

lemma runs_cong:
  assumes "snd (read_interval e) = snd (read_interval e')" "right_full e = right_full e'"
  shows "runs al e ms cur = runs al e' ms cur"
proof (induction ms arbitrary: cur)
  case Nil
  then show ?case by simp
next
  case (Cons m ms)
  have "following_run al e ms c = following_run al e' ms c" for c
    using assms by (rule following_run_cong)
  then show ?case using Cons by (simp add: Let_def)
qed

lemma following_run_cut:
  "ys \<noteq> [] \<Longrightarrow> following_run al (cut_right e ys) [] cur = following_run al e ys cur"
  by (cases ys) (simp_all add: following_run_def cut_right_def Let_def)

lemma following_run_hd:
  "xs \<noteq> [] \<Longrightarrow> following_run al e (xs @ ys) c = following_run al e' xs c"
  by (cases xs) (simp_all add: following_run_def)

lemma runs_append:
  assumes "ys \<noteq> []"
  shows "runs al e (xs @ ys) cur =
     runs al (cut_right e ys) xs cur @ runs al e ys (last (cur # runs al (cut_right e ys) xs cur))"
proof (induction xs arbitrary: cur)
  case Nil
  then show ?case by simp
next
  case (Cons x xs)
  let ?c1 = "following_run al e (xs @ ys) (after_mismatch al x cur)"
  let ?c1' = "following_run al (cut_right e ys) xs (after_mismatch al x cur)"
  have eq: "?c1 = ?c1'"
  proof (cases "xs = []")
    case True
    then show ?thesis using following_run_cut [OF assms, of al e] by simp
  next
    case False
    then show ?thesis by (rule following_run_hd)
  qed
  have "runs al e ((x # xs) @ ys) cur = ?c1 # runs al e (xs @ ys) ?c1"
    by (simp add: Let_def)
  also have "\<dots> = ?c1 # (runs al (cut_right e ys) xs ?c1
      @ runs al e ys (last (?c1 # runs al (cut_right e ys) xs ?c1)))"
    by (simp only: Cons.IH)
  also have "\<dots> = runs al (cut_right e ys) (x # xs) cur
      @ runs al e ys (last (cur # runs al (cut_right e ys) (x # xs) cur))"
    unfolding eq by (simp add: Let_def)
  finally show ?case .
qed

lemma following_run_lo: "fst (fst (following_run al e rest c)) = fst (fst c)"
  by (cases rest) (simp_all add: following_run_def Let_def)

lemma following_run_hi:
  "snd (fst (following_run al e rest c)) = (if rest = [] then snd (read_interval e) else hd rest)"
  by (cases rest) (simp_all add: following_run_def Let_def)

lemma after_mismatch_lo:
  "fst (fst (after_mismatch al m c)) = fst (fst c) \<or> after_mismatch al m c = ((m + 1, m + 1), 0)"
  by (simp add: after_mismatch_def)

lemma his_runs:
  "ms \<noteq> [] \<Longrightarrow> map (\<lambda>c. snd (fst c)) (runs al e ms cur) = tl ms @ [snd (read_interval e)]"
proof (induction ms arbitrary: cur)
  case Nil
  then show ?case by simp
next
  case (Cons m ms)
  show ?case
  proof (cases "ms = []")
    case True
    then show ?thesis by (simp add: Let_def following_run_hi)
  next
    case False
    from Cons.IH [OF False] False show ?thesis
      by (cases ms) (simp_all add: Let_def following_run_hi)
  qed
qed

lemma lo_runs_mem:
  "c \<in> set (runs al e ms cur) \<Longrightarrow> fst (fst c) = fst (fst cur) \<or> (\<exists>m\<in>set ms. fst (fst c) = m + 1)"
proof (induction ms arbitrary: cur)
  case Nil
  then show ?case by simp
next
  case (Cons m ms)
  let ?c1 = "following_run al e ms (after_mismatch al m cur)"
  have lo1: "fst (fst ?c1) = fst (fst cur) \<or> fst (fst ?c1) = m + 1"
    using after_mismatch_lo [of al m cur] by (auto simp: following_run_lo)
  from Cons.prems have "c = ?c1 \<or> c \<in> set (runs al e ms ?c1)"
    by (simp add: Let_def)
  then show ?case
  proof
    assume "c = ?c1"
    then show ?thesis using lo1 by auto
  next
    assume "c \<in> set (runs al e ms ?c1)"
    from Cons.IH [OF this] lo1 show ?thesis by auto
  qed
qed

lemma runs_lo_sorted:
  assumes "sorted_wrt (<) ms" "\<forall>m\<in>set ms. m < snd (read_interval e)"
    and "fst (fst cur) \<le> snd (fst cur)" "ms \<noteq> [] \<longrightarrow> snd (fst cur) \<le> hd ms"
  shows "sorted_wrt (\<lambda>c d. fst (fst c) \<le> fst (fst d)) (cur # runs al e ms cur)"
  using assms
proof (induction ms arbitrary: cur)
  case Nil
  then show ?case by simp
next
  case (Cons m ms)
  let ?c1 = "following_run al e ms (after_mismatch al m cur)"
  have hi_cur: "snd (fst cur) \<le> m" using Cons.prems(4) by simp
  have lo1: "fst (fst ?c1) = fst (fst cur) \<or> fst (fst ?c1) = m + 1"
    using after_mismatch_lo [of al m cur] by (auto simp: following_run_lo)
  have hi1: "snd (fst ?c1) = (if ms = [] then snd (read_interval e) else hd ms)"
    by (rule following_run_hi)
  have m_lt: "m < snd (fst ?c1)"
    using Cons.prems(1,2) hi1 by (cases ms) auto
  have le1: "fst (fst cur) \<le> fst (fst ?c1)"
    using lo1 hi_cur Cons.prems(3) by auto
  have ok1: "fst (fst ?c1) \<le> snd (fst ?c1)"
    using lo1 hi_cur Cons.prems(3) m_lt by auto
  have ok2: "ms \<noteq> [] \<longrightarrow> snd (fst ?c1) \<le> hd ms"
    using hi1 by simp
  have ih: "sorted_wrt (\<lambda>c d. fst (fst c) \<le> fst (fst d)) (?c1 # runs al e ms ?c1)"
    using Cons.IH [of ?c1] Cons.prems(1,2) ok1 ok2 by simp
  then have "\<forall>d\<in>set (runs al e ms ?c1). fst (fst ?c1) \<le> fst (fst d)"
    by simp
  with le1 have "\<forall>d\<in>set (?c1 # runs al e ms ?c1). fst (fst cur) \<le> fst (fst d)"
    by auto
  with ih show ?case by (simp add: Let_def)
qed

lemma runs_snoc:
  "runs al e (xs @ [m]) cur =
     runs al (cut_right e [m]) xs cur
       @ [following_run al e [] (after_mismatch al m (last (cur # runs al (cut_right e [m]) xs cur)))]"
  using runs_append [of "[m]" al e xs cur] by (simp add: Let_def)

lemma runs_lo_le_hi:
  assumes "sorted_wrt (<) ms" "\<forall>m\<in>set ms. m < snd (read_interval e)"
    and "fst (fst cur) \<le> snd (fst cur)" "ms \<noteq> [] \<longrightarrow> snd (fst cur) \<le> hd ms"
  shows "\<forall>c\<in>set (runs al e ms cur). fst (fst c) \<le> snd (fst c)"
  using assms
proof (induction ms arbitrary: cur)
  case Nil
  then show ?case by simp
next
  case (Cons m ms)
  let ?c1 = "following_run al e ms (after_mismatch al m cur)"
  have hi_cur: "snd (fst cur) \<le> m" using Cons.prems(4) by simp
  have lo1: "fst (fst ?c1) = fst (fst cur) \<or> fst (fst ?c1) = m + 1"
    using after_mismatch_lo [of al m cur] by (auto simp: following_run_lo)
  have hi1: "snd (fst ?c1) = (if ms = [] then snd (read_interval e) else hd ms)"
    by (rule following_run_hi)
  have m_lt: "m < snd (fst ?c1)"
    using Cons.prems(1,2) hi1 by (cases ms) auto
  have ok1: "fst (fst ?c1) \<le> snd (fst ?c1)"
    using lo1 hi_cur Cons.prems(3) m_lt by auto
  have ok2: "ms \<noteq> [] \<longrightarrow> snd (fst ?c1) \<le> hd ms"
    using hi1 by simp
  have "\<forall>c\<in>set (runs al e ms ?c1). fst (fst c) \<le> snd (fst c)"
    using Cons.IH [of ?c1] Cons.prems(1,2) ok1 ok2 by simp
  with ok1 show ?case by (simp add: Let_def)
qed

lemma last_runs_ok:
  assumes "sorted_wrt (<) (xs @ [m])" "fst (fst cur) \<le> snd (fst cur)"
    and "snd (fst cur) \<le> hd (xs @ [m])" "snd (read_interval e') = m"
  shows "fst (fst (last (cur # runs al e' xs cur))) \<le> m"
proof (cases "xs = []")
  case True
  then show ?thesis using assms by simp
next
  case False
  let ?R = "runs al e' xs cur"
  have ne: "?R \<noteq> []"
    using False runs_length [of al e' xs cur] by (cases ?R) auto
  have srt: "sorted_wrt (<) xs" and lt: "\<forall>x\<in>set xs. x < m"
    using assms(1) by (auto simp: sorted_wrt_append)
  have hd_le: "xs \<noteq> [] \<longrightarrow> snd (fst cur) \<le> hd xs"
    using assms(3) False by (cases xs) auto
  have "\<forall>c\<in>set ?R. fst (fst c) \<le> snd (fst c)"
    using runs_lo_le_hi [of xs e' cur al] srt lt assms(2,4) hd_le by simp
  then have lo_hi: "fst (fst (last ?R)) \<le> snd (fst (last ?R))"
    using ne by simp
  have "map (\<lambda>c. snd (fst c)) ?R = tl xs @ [m]"
    using his_runs [OF False, of al e' cur] assms(4) by simp
  then have "last (map (\<lambda>c. snd (fst c)) ?R) = m"
    by simp
  then have "snd (fst (last ?R)) = m"
    using ne by (simp add: last_map)
  with lo_hi ne show ?thesis by simp
qed

lemma reset_fresh:
  assumes srt: "sorted_wrt (<) (pre @ mid)" and pre: "pre \<noteq> []" and mid: "mid \<noteq> []"
    and cur: "fst (fst cur) \<le> snd (fst cur)" "snd (fst cur) \<le> hd pre"
    and lo: "fst (fst (last (runs al (cut_right e0 mid) pre cur))) = last pre + 1"
  shows "last (runs al (cut_right e0 mid) pre cur) = fresh_run al (last pre + 1) (hd mid)"
proof -
  obtain xs m where pre_eq: "pre = xs @ [m]"
    using pre by (cases pre rule: rev_cases) auto
  let ?e = "cut_right e0 mid"
  let ?e1 = "cut_right ?e [m]"
  let ?prev = "last (cur # runs al ?e1 xs cur)"
  let ?am = "after_mismatch al m ?prev"
  have last_eq: "last (runs al ?e pre cur) = following_run al ?e [] ?am"
    unfolding pre_eq runs_snoc by simp
  have srt1: "sorted_wrt (<) (xs @ [m])"
    using srt pre_eq by (simp add: sorted_wrt_append)
  have "snd (read_interval ?e1) = m"
    by (simp add: cut_right_def)
  then have prev_le: "fst (fst ?prev) \<le> m"
    using last_runs_ok [OF srt1 cur(1), of ?e1 al] cur(2) pre_eq by simp
  have "fst (fst ?am) = m + 1"
    using lo last_eq pre_eq by (simp add: following_run_lo)
  then have am: "?am = ((m + 1, m + 1), 0)"
    using after_mismatch_lo [of al m ?prev] prev_le by auto
  have "following_run al ?e [] ((m + 1, m + 1), 0) = fresh_run al (m + 1) (hd mid)"
    using mid by (simp add: following_run_def cut_right_def fresh_run_def Let_def)
  then show ?thesis using last_eq am pre_eq by simp
qed
subsection \<open>The wavefront aligner never records a point\<close>

text \<open>
  The constructor of \<^verbatim>\<open>WFATree\<close> makes the root node and no wavefront point, and every
  update of a wavefront starts from a point found on one. So the tree stays as the
  constructor left it through \<^verbatim>\<open>extend\<close> and \<^verbatim>\<open>next\<close>, but for the ranges of
  diagonals.
\<close>

lemma node_find_pos_none:
  "wavefronts nd type = [] \<Longrightarrow> node_find_pos nd type s d p = empty_pos"
  by (simp add: node_find_pos_def)

lemma untouched_root:
  "untouched t \<Longrightarrow> nth_opt (nodes t) 0 = Some (nodes t ! 0)"
  by (simp add: untouched_def nth_opt_def)

lemma untouched_wavefronts:
  "untouched t \<Longrightarrow> wavefronts (nodes t ! 0) type = []"
  by (cases type) (simp_all add: untouched_def)

lemma pos_empty_empty_pos [simp]: "pos_empty empty_pos"
  by (simp add: pos_empty_def empty_pos_def)

lemma find_pos_untouched:
  "untouched t \<Longrightarrow> find_pos (Suc k) g sequence t type 0 s d es eg = Some empty_pos"
  by (simp add: find_pos_def untouched_root node_find_pos_none untouched_wavefronts is_root_def)

lemma get_leaves_untouched:
  "untouched t \<Longrightarrow> get_leaves t = [0]"
  by (simp add: get_leaves_def untouched_def is_leaf_def)

lemma extend_over_untouched:
  "untouched t \<Longrightarrow> extend_over (Suc k) g sequence s d to [0] t = Some t"
  by (simp add: find_pos_untouched)

lemma extend_diagonals_untouched:
  "untouched t \<Longrightarrow> extend_diagonals (Suc k) g sequence s to ds t = Some t"
  by (induction ds) (simp_all add: get_leaves_untouched find_pos_untouched)

lemma wfa_extend_untouched:
  "untouched t \<Longrightarrow> wfa_extend (Suc k) g sequence s to t = Some t"
  by (simp add: wfa_extend_def extend_diagonals_untouched)

lemma pos_less_empty [simp]: "pos_less empty_pos p"
  by (simp add: pos_less_def)

lemma ins_predecessor_untouched:
  "untouched t \<Longrightarrow> ins_predecessor (Suc k) g sequence t 0 s d = Some (empty_pos, Insertion)"
  by (simp add: ins_predecessor_def find_pos_untouched)

lemma del_predecessor_untouched:
  "untouched t \<Longrightarrow> del_predecessor (Suc k) g sequence t 0 s d = Some (empty_pos, Deletion)"
  by (simp add: del_predecessor_def find_pos_untouched)

lemma next_leaf_untouched:
  "untouched t \<Longrightarrow> next_leaf (Suc k) g sequence s d to 0 t = Some t"
  by (simp add: next_leaf_def next_insertion_def next_deletion_def ins_predecessor_untouched
      del_predecessor_untouched find_pos_untouched step_diagonal_def pos_max_def)

lemma next_diagonals_untouched:
  "untouched t \<Longrightarrow> next_diagonals (Suc k) g sequence s to ds t = Some t"
  by (induction ds) (simp_all add: get_leaves_untouched next_leaf_untouched)

lemma untouched_diagonals [simp]:
  "untouched (t\<lparr>max_diagonals := m, diagonals := ds\<rparr>) = untouched t"
  by (simp add: untouched_def)

lemma get_diagonals_untouched:
  "get_diagonals t s = Some (rng, t') \<Longrightarrow> untouched t \<Longrightarrow>
     untouched t' \<and> score_bound t' = score_bound t \<and> mismatch_w t' = mismatch_w t
     \<and> gap_open_w t' = gap_open_w t \<and> gap_extend t' = gap_extend t
     \<and> length (diagonals t') = nat (s + 1)"
  by (auto simp: get_diagonals_def Let_def split: option.splits if_splits)

lemma wfa_next_untouched:
  "wfa_next (Suc k) g sequence s to t = Some t' \<Longrightarrow> untouched t \<Longrightarrow>
     untouched t' \<and> score_bound t' = score_bound t \<and> mismatch_w t' = mismatch_w t
     \<and> gap_open_w t' = gap_open_w t \<and> gap_extend t' = gap_extend t
     \<and> length (diagonals t') = nat (s + 1)"
  by (auto simp: wfa_next_def next_diagonals_untouched split: option.splits dest!: get_diagonals_untouched)


lemma find_pos_untouched_any:
  "untouched t \<Longrightarrow> find_pos k g sequence t type 0 s d es eg = Some p \<Longrightarrow> p = empty_pos"
proof (cases k)
  case 0
  assume "find_pos k g sequence t type 0 s d es eg = Some p"
  with 0 show ?thesis by (auto simp: find_pos_def split: if_splits)
next
  case (Suc j)
  assume "untouched t" and "find_pos k g sequence t type 0 s d es eg = Some p"
  with Suc show ?thesis using find_pos_untouched [of t j g sequence type s d es eg] by simp
qed

lemma extend_walk_zero [simp]: "extend_walk 0 g sequence s d to leaf pos t = None"
  by simp

lemma extend_over_untouched_any:
  "untouched t \<Longrightarrow> extend_over k g sequence s d to [0] t = Some t' \<Longrightarrow> t' = t"
proof (cases k)
  case 0
  assume "untouched t" and r: "extend_over k g sequence s d to [0] t = Some t'"
  show ?thesis
  proof (cases "s < 0")
    case True
    then show ?thesis using r 0 by (simp add: find_pos_def)
  next
    case False
    then show ?thesis using r 0 by (simp add: find_pos_def)
  qed
next
  case (Suc j)
  assume "untouched t" and "extend_over k g sequence s d to [0] t = Some t'"
  then show ?thesis using Suc by (simp add: find_pos_untouched)
qed

lemma extend_diagonals_untouched_any:
  "untouched t \<Longrightarrow> extend_diagonals k g sequence s to ds t = Some t' \<Longrightarrow> t' = t"
proof (induction ds arbitrary: t)
  case Nil
  then show ?case by simp
next
  case (Cons d ds)
  from Cons.prems(2) obtain t1 where
    a: "extend_over k g sequence s d to (get_leaves t) t = Some t1"
    and b: "extend_diagonals k g sequence s to ds t1 = Some t'"
    by (auto split: option.splits)
  from a Cons.prems(1) have "t1 = t"
    by (simp add: get_leaves_untouched extend_over_untouched_any)
  with b Cons.IH Cons.prems(1) show ?case by simp
qed

lemma wfa_extend_untouched_any:
  "untouched t \<Longrightarrow> wfa_extend k g sequence s to t = Some t' \<Longrightarrow> t' = t"
  unfolding wfa_extend_def by (rule extend_diagonals_untouched_any)

lemma ins_predecessor_untouched_any:
  assumes "untouched t" and "ins_predecessor k g sequence t 0 s d = Some (found, e)"
  shows "found = empty_pos"
proof -
  from assms(2) obtain opened extended where
    o: "find_pos k g sequence t MATCHES 0 (s - gap_open_w t - gap_extend t) (d - 1) True False = Some opened"
    and x: "find_pos k g sequence t INSERTIONS 0 (s - gap_extend t) (d - 1) True False = Some extended"
    and f: "found = extended \<or> found = opened"
    unfolding ins_predecessor_def by (auto split: option.splits if_splits)
  from o x assms(1) have "opened = empty_pos" "extended = empty_pos"
    by (auto dest: find_pos_untouched_any)
  with f show ?thesis by auto
qed

lemma del_predecessor_untouched_any:
  assumes "untouched t" and "del_predecessor k g sequence t 0 s d = Some (found, e)"
  shows "found = empty_pos"
proof -
  from assms(2) obtain opened extended where
    o: "find_pos k g sequence t MATCHES 0 (s - gap_open_w t - gap_extend t) (d + 1) False True = Some opened"
    and x: "find_pos k g sequence t DELETIONS 0 (s - gap_extend t) (d + 1) False True = Some extended"
    and f: "found = extended \<or> found = opened"
    unfolding del_predecessor_def by (auto split: option.splits if_splits)
  from o x assms(1) have "opened = empty_pos" "extended = empty_pos"
    by (auto dest: find_pos_untouched_any)
  with f show ?thesis by auto
qed

lemma next_insertion_untouched_any:
  assumes "untouched t" and "next_insertion k g sequence s d 0 t = Some (ins, t1)"
  shows "ins = empty_pos \<and> t1 = t"
proof -
  from assms(2) obtain found e where
    ip: "ins_predecessor k g sequence t 0 s d = Some (found, e)"
    unfolding next_insertion_def by (auto split: option.splits)
  have "found = empty_pos" using ins_predecessor_untouched_any [OF assms(1) ip] .
  with assms(2) ip show ?thesis by (simp add: next_insertion_def)
qed

lemma next_deletion_untouched_any:
  assumes "untouched t" and "next_deletion k g sequence s d 0 t = Some (del, t1)"
  shows "del = empty_pos \<and> t1 = t"
proof -
  from assms(2) obtain found e where
    dp: "del_predecessor k g sequence t 0 s d = Some (found, e)"
    unfolding next_deletion_def by (auto split: option.splits)
  have "found = empty_pos" using del_predecessor_untouched_any [OF assms(1) dp] .
  with assms(2) dp show ?thesis by (simp add: next_deletion_def)
qed

lemma next_leaf_untouched_any:
  assumes "untouched t" and r: "next_leaf k g sequence s d to 0 t = Some t'"
  shows "t' = t"
proof -
  from r obtain ins t1 where
    i: "next_insertion k g sequence s d 0 t = Some (ins, t1)"
    unfolding next_leaf_def by (auto split: option.splits)
  note i1 = next_insertion_untouched_any [OF assms(1) i]
  from r i i1 obtain del t2 where
    dl: "next_deletion k g sequence s d 0 t = Some (del, t2)"
    unfolding next_leaf_def by (auto split: option.splits)
  note d1 = next_deletion_untouched_any [OF assms(1) dl]
  from r i i1 dl d1 obtain found2 where
    m: "find_pos k g sequence t MATCHES 0 (s - mismatch_w t) d True True = Some found2"
    unfolding next_leaf_def by (auto split: option.splits)
  have "found2 = empty_pos" using m assms(1) by (auto dest: find_pos_untouched_any)
  with r i i1 dl d1 m show ?thesis
    by (simp add: next_leaf_def step_diagonal_def pos_max_def)
qed

lemma next_leaves_untouched_any:
  "untouched t \<Longrightarrow> next_leaves k g sequence s d to [0] t = Some t' \<Longrightarrow> t' = t"
  by (auto split: option.splits dest: next_leaf_untouched_any)

lemma next_diagonals_untouched_any:
  "untouched t \<Longrightarrow> next_diagonals k g sequence s to ds t = Some t' \<Longrightarrow> t' = t"
proof (induction ds arbitrary: t)
  case Nil
  then show ?case by simp
next
  case (Cons d ds)
  from Cons.prems(2) obtain t1 where
    a: "next_leaves k g sequence s d to (get_leaves t) t = Some t1"
    and b: "next_diagonals k g sequence s to ds t1 = Some t'"
    by (auto split: option.splits)
  from a Cons.prems(1) have "t1 = t"
    by (simp add: get_leaves_untouched next_leaves_untouched_any)
  with b Cons.IH Cons.prems(1) show ?case by simp
qed

lemma wfa_next_untouched_any:
  assumes "wfa_next k g sequence s to t = Some t'" and "untouched t"
  shows "untouched t' \<and> score_bound t' = score_bound t \<and> mismatch_w t' = mismatch_w t
     \<and> gap_open_w t' = gap_open_w t \<and> gap_extend t' = gap_extend t
     \<and> length (diagonals t') = nat (s + 1)"
proof -
  from assms(1) obtain rng t1 where
    gd: "get_diagonals t s = Some (rng, t1)"
    and nd: "next_diagonals k g sequence s to [fst rng .. snd rng] t1 = Some t'"
    by (auto simp: wfa_next_def split: option.splits)
  note facts = get_diagonals_untouched [OF gd assms(2)]
  from facts nd have "t' = t1" by (auto dest: next_diagonals_untouched_any)
  with facts show ?thesis by simp
qed

lemma update_range_defined:
  "x < int (length (diagonals t)) \<Longrightarrow> \<exists>r. update_range t rng x = Some r"
  by (cases "0 < x") (simp_all add: update_range_def nth_opt_def nat_less_iff)

lemma get_diagonals_defined:
  assumes "0 \<le> s" and "length (diagonals t) = nat s"
    and "1 \<le> mismatch_w t" and "1 \<le> gap_extend t" and "1 \<le> gap_open_w t + gap_extend t"
  shows "\<exists>rng t'. get_diagonals t s = Some (rng, t')"
proof -
  have len: "int (length (diagonals t)) = s" using assms(1,2) by simp
  obtain r1 where r1: "update_range t (0, 0) (s - mismatch_w t) = Some r1"
    using update_range_defined [of "s - mismatch_w t" t "(0, 0)"] len assms(3) by auto
  obtain r2 where r2: "update_range t r1 (s - gap_open_w t - gap_extend t) = Some r2"
    using update_range_defined [of "s - gap_open_w t - gap_extend t" t r1] len assms(5) by auto
  obtain r3 where r3: "update_range t r2 (s - gap_extend t) = Some r3"
    using update_range_defined [of "s - gap_extend t" t r2] len assms(4) by auto
  show ?thesis using r1 r2 r3 assms(1) by (simp add: get_diagonals_def Let_def)
qed

lemma wfa_next_untouched_defined:
  assumes "untouched t" and "0 \<le> s" and "length (diagonals t) = nat s"
    and "1 \<le> mismatch_w t" and "1 \<le> gap_extend t" and "1 \<le> gap_open_w t + gap_extend t"
  shows "\<exists>t'. wfa_next (Suc k) g sequence s to t = Some t'"
proof -
  obtain rng t1 where gd: "get_diagonals t s = Some (rng, t1)"
    using get_diagonals_defined [OF assms(2-6)] by blast
  have "untouched t1" using get_diagonals_untouched [OF gd assms(1)] by simp
  then show ?thesis using gd by (simp add: wfa_next_def next_diagonals_untouched)
qed

lemma connect_loop_untouched_any:
  "connect_loop k g sequence to s t = Some t' \<Longrightarrow> untouched t \<Longrightarrow>
     untouched t' \<and> score_bound t' = score_bound t \<and> mismatch_w t' = mismatch_w t
     \<and> gap_open_w t' = gap_open_w t \<and> gap_extend t' = gap_extend t"
proof (induction k arbitrary: s t)
  case 0
  then show ?case by simp
next
  case (Suc k)
  from Suc.prems(1) obtain t1 where
    e: "wfa_extend k g sequence s to t = Some t1"
    by (auto split: option.splits)
  have t1: "t1 = t" using wfa_extend_untouched_any [OF Suc.prems(2) e] .
  show ?case
  proof (cases "score_p (candidate_point t) \<le> s \<or> score_bound t < s + 1")
    case True
    with Suc.prems(1) e t1 have "t' = t" by (auto split: if_splits)
    with Suc.prems(2) show ?thesis by simp
  next
    case False
    with Suc.prems(1) e t1 obtain t2 where
      n: "wfa_next k g sequence (s + 1) to t = Some t2"
      and r: "connect_loop k g sequence to (s + 1) t2 = Some t'"
      by (auto split: option.splits if_splits)
    note f = wfa_next_untouched_any [OF n Suc.prems(2)]
    from Suc.IH [OF r] f show ?thesis by simp
  qed
qed

lemma connect_loop_untouched_defined:
  assumes "untouched t" and "0 \<le> s" and "length (diagonals t) = nat (s + 1)"
    and "1 \<le> mismatch_w t" and "1 \<le> gap_extend t" and "1 \<le> gap_open_w t + gap_extend t"
    and "nat (score_bound t - s) + 2 \<le> k"
  shows "\<exists>t'. connect_loop k g sequence to s t = Some t'"
  using assms
proof (induction k arbitrary: s t)
  case 0
  then show ?case by simp
next
  case (Suc k)
  from Suc.prems(7) obtain j where j: "k = Suc j" by (cases k) auto
  have e: "wfa_extend k g sequence s to t = Some t"
    using Suc.prems(1) j by (simp add: wfa_extend_untouched)
  show ?case
  proof (cases "score_p (candidate_point t) \<le> s \<or> score_bound t < s + 1")
    case True
    then show ?thesis using e by auto
  next
    case False
    have s1: "0 \<le> s + 1" using Suc.prems(2) by simp
    obtain t2 where n: "wfa_next k g sequence (s + 1) to t = Some t2"
      using wfa_next_untouched_defined [OF Suc.prems(1) s1 Suc.prems(3) Suc.prems(4,5,6)] j
      by blast
    note f = wfa_next_untouched_any [OF n Suc.prems(1)]
    have fuel: "nat (score_bound t2 - (s + 1)) + 2 \<le> k"
      using Suc.prems(7) False f by auto
    have "\<exists>t'. connect_loop k g sequence to (s + 1) t2 = Some t'"
    proof (rule Suc.IH)
      show "untouched t2" using f by simp
      show "0 \<le> s + 1" by (rule s1)
      show "length (diagonals t2) = nat (s + 1 + 1)" using f by simp
      show "1 \<le> mismatch_w t2" using f Suc.prems(4) by simp
      show "1 \<le> gap_extend t2" using f Suc.prems(5) by simp
      show "1 \<le> gap_open_w t2 + gap_extend t2" using f Suc.prems(6) by simp
      show "nat (score_bound t2 - (s + 1)) + 2 \<le> k" by (rule fuel)
    qed
    then show ?thesis using e n False by auto
  qed
qed

lemma connect_finish_untouched:
  "untouched t \<Longrightarrow> connect_finish k g al sequence from to t = Some empty_alignment"
  by (simp add: connect_finish_def untouched_def trim_def Let_def)

lemma WFATree_untouched: "untouched (WFATree error_bounds sequence root_state al)"
  by (simp add: untouched_def WFATree_def WFANode_def Let_def)

lemma connect_masked_empty:
  "connect_masked k g al error_bounds sequence root_state from to = Some a \<Longrightarrow> a = empty_alignment"
  by (auto simp: connect_masked_def connect_finish_untouched WFATree_untouched
      split: option.splits dest!: connect_loop_untouched_any)

lemma connect_empty:
  "connect k this error_bounds sequence from to = Some a \<Longrightarrow> a = empty_alignment"
  by (auto simp: connect_def Let_def split: option.splits if_splits dest: connect_masked_empty)

lemma connect_masked_defined:
  assumes "1 \<le> mismatch_w (WFATree error_bounds sequence root_state al)"
    and "1 \<le> gap_extend (WFATree error_bounds sequence root_state al)"
    and "1 \<le> gap_open_w (WFATree error_bounds sequence root_state al)
           + gap_extend (WFATree error_bounds sequence root_state al)"
    and "nat (score_bound (WFATree error_bounds sequence root_state al)) + 2 \<le> k"
  shows "connect_masked k g al error_bounds sequence root_state from to = Some empty_alignment"
proof -
  let ?t = "WFATree error_bounds sequence root_state al"
  have len: "length (diagonals ?t) = nat (0 + 1)" by (simp add: WFATree_def Let_def)
  have fuel: "nat (score_bound ?t - 0) + 2 \<le> k" using assms(4) by simp
  obtain t' where l: "connect_loop k g sequence to 0 ?t = Some t'"
    using connect_loop_untouched_defined
      [where g = g and sequence = sequence and to = to, OF WFATree_untouched _ len assms(1,2,3) fuel]
    by auto
  have "untouched t'" using connect_loop_untouched_any [OF l WFATree_untouched] by simp
  then show ?thesis using l by (simp add: connect_masked_def connect_finish_untouched)
qed

subsection \<open>Masking the read\<close>

lemma char_eq_code: "(c = d) = ((of_char c :: nat) = of_char d)"
  by simp

lemma is_base_code: "is_base c \<longleftrightarrow> (of_char c :: nat) \<in> {65, 67, 71, 84}"
  unfolding is_base_def
  using char_eq_code [of c "CHR ''A''"] char_eq_code [of c "CHR ''C''"]
    char_eq_code [of c "CHR ''G''"] char_eq_code [of c "CHR ''T''"]
  by simp

lemma ReadMasker_ACGT:
  "ReadMasker cs ''ACGT''
   = Some ((replicate 256 CHR ''X'')[65 := CHR ''A'', 67 := CHR ''C'', 71 := CHR ''G'', 84 := CHR ''T''])"
  by (simp add: ReadMasker_def char_index_def)

lemma masker_lookup:
  "((replicate 256 CHR ''X'')[65 := CHR ''A'', 67 := CHR ''C'', 71 := CHR ''G'', 84 := CHR ''T''])
     ! (of_char c :: nat) = (if is_base c then c else CHR ''X'')"
proof -
  have lt: "(of_char c :: nat) < 256" by (rule nat_of_char_less_256)
  show ?thesis
    using lt char_eq_code [of c "CHR ''A''"] char_eq_code [of c "CHR ''C''"]
      char_eq_code [of c "CHR ''G''"] char_eq_code [of c "CHR ''T''"]
    by (auto simp: is_base_def nth_list_update)
qed

lemma apply_mask_map:
  assumes "length table = 256" and "\<not> cs \<or> (\<forall>c\<in>set sequence. of_char c < (128::nat))"
  shows "apply_mask cs table sequence = Some (map (\<lambda>c. table ! of_char c) sequence)"
  using assms(2)
proof (induction sequence)
  case Nil
  then show ?case by simp
next
  case (Cons c cs')
  have idx: "char_index cs c = of_char c" using Cons.prems by (auto simp: char_index_def)
  have lt: "(of_char c :: nat) < 256" by (rule nat_of_char_less_256)
  from Cons show ?case using idx lt assms(1) by auto
qed

lemma mask_read_map:
  assumes "\<not> cs \<or> (\<forall>c\<in>set sequence. of_char c < (128::nat))"
  shows "mask_read cs sequence = Some (map (\<lambda>c. if is_base c then c else CHR ''X'') sequence)"
proof -
  let ?table = "(replicate 256 CHR ''X'')[65 := CHR ''A'', 67 := CHR ''C'', 71 := CHR ''G'', 84 := CHR ''T'']"
  have "apply_mask cs ?table sequence = Some (map (\<lambda>c. ?table ! of_char c) sequence)"
    using assms by (intro apply_mask_map) auto
  then show ?thesis
    by (simp add: mask_read_def ReadMasker_ACGT masker_lookup)
qed



subsection \<open>Invalid input\<close>

text \<open>
  Claim C7. A call with invalid input returns an empty result at once: \<^verbatim>\<open>extend\<close> when
  the graph or the scoring model is absent, the seed set is empty or the read is empty;
  \<^verbatim>\<open>connect\<close> when the graph or the scoring model is absent, the read is empty or the
  start position has no haplotype. The result is the value \<open>Some\<close> of the model (no
  undefined behaviour) for every amount of fuel, none included: no loop is entered.
  Both functions are \<^verbatim>\<open>const\<close> and the model has no state to modify.
\<close>

theorem invalid_input_returns_empty:
  "((graph this = None \<or> aligner this = None \<or> cluster = [] \<or> sequence = []) \<longrightarrow>
      extend fuel this cluster sequence cache max_mismatches overlap_threshold = Some [])
   \<and> ((graph this = None \<or> aligner this = None \<or> sequence = []
        \<or> (\<exists>g. graph this = Some g
              \<and> state_empty (get_state g (get_handle (id_of from) (is_rev from))))) \<longrightarrow>
      connect fuel this error_bounds sequence from to = Some empty_alignment)"
  by (auto simp: extend_def connect_def Let_def split: option.splits)

theorem invalid_input_returns_empty_witness:
  "extend 0 null_extender [] ''GA'' None 0 0 = Some []
   \<and> extend 0 toy_extender [] ''GA'' None 0 0 = Some []
   \<and> extend 0 toy_extender [\<lparr>seed_handle = 2, get_read_offset = 0, get_node_offset = 0\<rparr>] [] None 0 0 = Some []
   \<and> connect 0 null_extender decimal_error_bounds ''GA'' toy_from toy_to = Some empty_alignment
   \<and> connect 0 toy_extender decimal_error_bounds [] toy_from toy_to = Some empty_alignment
   \<and> state_empty (get_state toy_graph (get_handle 3 False))
   \<and> connect 0 toy_extender decimal_error_bounds ''GA'' \<lparr>id_of = 3, is_rev = False, offset_of = 0\<rparr> toy_to
       = Some empty_alignment"
proof -
  have e: "state_empty (get_state toy_graph (get_handle 3 False))"
    by (simp add: state_empty_def toy_graph_def toy_state_def toy_visits_def get_handle_def
        node_to_handle_def node_encode_def)
  note t = invalid_input_returns_empty
  show ?thesis
    using t [of null_extender "[]" "''GA''" 0 None 0 0 toy_from decimal_error_bounds toy_to]
      t [of toy_extender "[]" "''GA''" 0 None 0 0 toy_from decimal_error_bounds toy_to]
      t [of toy_extender "[\<lparr>seed_handle = 2, get_read_offset = 0, get_node_offset = 0\<rparr>]" "[]" 0 None 0 0
           toy_from decimal_error_bounds toy_to]
      t [of toy_extender "[]" "''GA''" 0 None 0 0 "\<lparr>id_of = 3, is_rev = False, offset_of = 0\<rparr>"
           decimal_error_bounds toy_to]
      e
    by (simp add: null_extender_def toy_extender_def)
qed

subsection \<open>The penalties of the wavefront aligner\<close>

text \<open>
  Claim C9. The constructor of \<^verbatim>\<open>WFATree\<close> derives the penalties of the wavefront
  algorithm from the scoring model as mismatch \<open>2 * (match + mismatch)\<close>, gap open
  \<open>2 * gap_open\<close> and gap extend \<open>2 * gap_extension + match\<close>, for every scoring model
  whose four parameters are \<^verbatim>\<open>int8_t\<close> values (the type of the fields of \<^verbatim>\<open>Aligner\<close>), and
  the tree that the main loop of \<^verbatim>\<open>connect\<close> ends with has the same penalties.
\<close>

theorem wfa_penalties_from_aligner:
  assumes "- 128 \<le> match al \<and> match al \<le> 127"
    and "- 128 \<le> mismatch al \<and> mismatch al \<le> 127"
    and "- 128 \<le> gap_open al \<and> gap_open al \<le> 127"
    and "- 128 \<le> gap_extension al \<and> gap_extension al \<le> 127"
  shows "mismatch_w (WFATree error_bounds sequence root_state al) = 2 * (match al + mismatch al)
     \<and> gap_open_w (WFATree error_bounds sequence root_state al) = 2 * gap_open al
     \<and> gap_extend (WFATree error_bounds sequence root_state al) = 2 * gap_extension al + match al
     \<and> (\<forall>fuel g to t. connect_loop fuel g sequence to 0 (WFATree error_bounds sequence root_state al) = Some t \<longrightarrow>
          mismatch_w t = 2 * (match al + mismatch al) \<and> gap_open_w t = 2 * gap_open al
          \<and> gap_extend t = 2 * gap_extension al + match al)"
proof -
  let ?t = "WFATree error_bounds sequence root_state al"
  have a: "mismatch_w ?t = 2 * (match al + mismatch al)"
    using assms by (simp add: WFATree_def Let_def s32_fits fits_int32_def)
  have b: "gap_open_w ?t = 2 * gap_open al"
    using assms by (simp add: WFATree_def Let_def s32_fits fits_int32_def)
  have c: "gap_extend ?t = 2 * gap_extension al + match al"
    using assms by (simp add: WFATree_def Let_def s32_fits fits_int32_def)
  have d: "mismatch_w t = mismatch_w ?t \<and> gap_open_w t = gap_open_w ?t \<and> gap_extend t = gap_extend ?t"
    if "connect_loop fuel g sequence to 0 ?t = Some t" for fuel g to t
    using connect_loop_untouched_any [OF that WFATree_untouched] by simp
  show ?thesis using a b c d by simp
qed

theorem wfa_penalties_from_aligner_witness:
  "mismatch_w (WFATree decimal_error_bounds ''GA'' (toy_state 2 3) toy_aligner) = 10
   \<and> gap_open_w (WFATree decimal_error_bounds ''GA'' (toy_state 2 3) toy_aligner) = 12
   \<and> gap_extend (WFATree decimal_error_bounds ''GA'' (toy_state 2 3) toy_aligner) = 3"
  using wfa_penalties_from_aligner [of toy_aligner decimal_error_bounds "''GA''" "toy_state 2 3"]
  by (simp add: toy_aligner_def)

subsection \<open>The result of connect\<close>

text \<open>
  Claim C1. \<^verbatim>\<open>connect\<close> never returns an alignment. Whatever it returns is the empty
  alignment, the value that reports failure; and it does return it, for every read that
  the masker accepts, when the derived penalties are positive and the loop is given one
  unit of fuel for each score up to the bound (and two more). The reason is that the
  tree starts without any wavefront point, so \<^verbatim>\<open>extend\<close> finds nothing to extend at
  score 0 and \<^verbatim>\<open>next\<close> nothing to step from: the loop runs to the score bound, and
  the candidate is never set. In particular the stopping rule
  \<^verbatim>\<open>candidate_point.score <= score\<close> never applies.
\<close>

theorem connect_never_aligns:
  "(\<forall>a. connect fuel this error_bounds sequence from to = Some a \<longrightarrow> a = empty_alignment)
   \<and> (\<forall>g al masked.
         graph this = Some g \<and> aligner this = Some al
         \<and> mask_read (char_signed this) sequence = Some masked
         \<and> 1 \<le> mismatch_w (WFATree error_bounds masked (get_state g (get_handle (id_of from) (is_rev from))) al)
         \<and> 1 \<le> gap_extend (WFATree error_bounds masked (get_state g (get_handle (id_of from) (is_rev from))) al)
         \<and> 1 \<le> gap_open_w (WFATree error_bounds masked (get_state g (get_handle (id_of from) (is_rev from))) al)
               + gap_extend (WFATree error_bounds masked (get_state g (get_handle (id_of from) (is_rev from))) al)
         \<and> nat (score_bound (WFATree error_bounds masked (get_state g (get_handle (id_of from) (is_rev from))) al)) + 2
             \<le> fuel
         \<longrightarrow> connect fuel this error_bounds sequence from to = Some empty_alignment)"
proof -
  have a: "\<forall>a. connect fuel this error_bounds sequence from to = Some a \<longrightarrow> a = empty_alignment"
    using connect_empty by blast
  have b: "connect fuel this error_bounds sequence from to = Some empty_alignment"
    if "graph this = Some g" and "aligner this = Some al"
      and "mask_read (char_signed this) sequence = Some masked"
      and "1 \<le> mismatch_w (WFATree error_bounds masked (get_state g (get_handle (id_of from) (is_rev from))) al)"
      and "1 \<le> gap_extend (WFATree error_bounds masked (get_state g (get_handle (id_of from) (is_rev from))) al)"
      and "1 \<le> gap_open_w (WFATree error_bounds masked (get_state g (get_handle (id_of from) (is_rev from))) al)
               + gap_extend (WFATree error_bounds masked (get_state g (get_handle (id_of from) (is_rev from))) al)"
      and "nat (score_bound (WFATree error_bounds masked (get_state g (get_handle (id_of from) (is_rev from))) al)) + 2
             \<le> fuel"
    for g al masked
    using that(1,2,3) connect_masked_defined [OF that(4,5,6,7), of g "from" "to"]
    by (simp add: connect_def Let_def)
  show ?thesis using a b by blast
qed

lemma toy_tree_values:
  "mismatch_w (WFATree decimal_error_bounds ''GA'' rs toy_aligner) = 10"
  "gap_open_w (WFATree decimal_error_bounds ''GA'' rs toy_aligner) = 12"
  "gap_extend (WFATree decimal_error_bounds ''GA'' rs toy_aligner) = 3"
  "score_bound (WFATree decimal_error_bounds ''GA'' rs toy_aligner) = 25"
  by (simp_all add: WFATree_def Let_def toy_aligner_def decimal_error_bounds_def s32_fits fits_int32_def)

theorem connect_never_aligns_witness:
  "get_sequence_view toy_graph 2 @ get_sequence_view toy_graph 4 = ''GA''
   \<and> (4, 1) \<in> set (toy_next 2)
   \<and> \<not> state_empty (get_state toy_graph (get_handle (id_of toy_from) (is_rev toy_from)))
   \<and> connect 27 toy_extender decimal_error_bounds ''GA'' toy_from toy_to = Some empty_alignment
   \<and> connect 27 toy_extender decimal_error_bounds ''GA'' toy_from no_destination = Some empty_alignment"
proof -
  have m: "mask_read (char_signed toy_extender) ''GA'' = Some ''GA''"
    using mask_read_map [of "char_signed toy_extender" "''GA''"] by (simp add: is_base_def)
  have g: "graph toy_extender = Some toy_graph" "aligner toy_extender = Some toy_aligner"
    by (simp_all add: toy_extender_def)
  have s: "get_sequence_view toy_graph 2 @ get_sequence_view toy_graph 4 = ''GA''"
    by (simp add: toy_graph_def toy_sequence_def toy_forward_def node_is_reverse_def node_id_def)
  have n: "(4, 1) \<in> set (toy_next 2)" by (simp add: toy_next_def)
  have e: "\<not> state_empty (get_state toy_graph (get_handle (id_of toy_from) (is_rev toy_from)))"
    by (simp add: state_empty_def toy_graph_def toy_state_def toy_visits_def get_handle_def
        node_to_handle_def node_encode_def toy_from_def)
  have c1: "connect 27 toy_extender decimal_error_bounds ''GA'' toy_from toy_to = Some empty_alignment"
    using connect_never_aligns [of 27 toy_extender decimal_error_bounds "''GA''" toy_from toy_to] m g
    by (simp add: toy_tree_values)
  have c2: "connect 27 toy_extender decimal_error_bounds ''GA'' toy_from no_destination = Some empty_alignment"
    using connect_never_aligns [of 27 toy_extender decimal_error_bounds "''GA''" toy_from no_destination] m g
    by (simp add: toy_tree_values)
  show ?thesis using s n e c1 c2 by simp
qed

end
